theory Spec2Isabelle
  imports Main "HOL-Library.AList"
begin

section \<open>JavaScript values\<close>

text \<open>
  A number of the language is a binary64 floating-point number. The model has the whole
  numbers (\<open>Whole k\<close>), the whole numbers and a half (\<open>Half k\<close> is \<open>k + 0.5\<close>),
  \<open>NaN\<close>, the two infinities and the negative zero. On the whole numbers and the halves
  the operations that the code applies to a number (the successor, the comparison with
  zero and with a length, the truncation that \<open>slice\<close> does, the printing in a template
  literal) are exact in binary64 as long as the magnitude stays below \<open>2^52\<close>; the model
  has them unbounded. Other fractions are not modelled.
\<close>

datatype number = Whole int | Half int | NaN | PosInfinity | NegInfinity | NegZero

text \<open>A number is truthy unless it is zero (of either sign) or \<open>NaN\<close>.\<close>

fun nonzero :: "number \<Rightarrow> bool" where
  "nonzero (Whole k) = (k \<noteq> 0)"
| "nonzero (Half k) = True"
| "nonzero NaN = False"
| "nonzero PosInfinity = True"
| "nonzero NegInfinity = True"
| "nonzero NegZero = False"

text \<open>\<open>x > 0\<close> and \<open>x < 0\<close>; every comparison with \<open>NaN\<close> is false.\<close>

fun positive :: "number \<Rightarrow> bool" where
  "positive (Whole k) = (k > 0)"
| "positive (Half k) = (k \<ge> 0)"
| "positive NaN = False"
| "positive PosInfinity = True"
| "positive NegInfinity = False"
| "positive NegZero = False"

fun negative :: "number \<Rightarrow> bool" where
  "negative (Whole k) = (k < 0)"
| "negative (Half k) = (k < 0)"
| "negative NaN = False"
| "negative PosInfinity = False"
| "negative NegInfinity = True"
| "negative NegZero = False"

text \<open>\<open>x >= n\<close> for the length \<open>n\<close> of an array.\<close>

fun at_least :: "number \<Rightarrow> nat \<Rightarrow> bool" where
  "at_least (Whole k) n = (k \<ge> int n)"
| "at_least (Half k) n = (k \<ge> int n)"
| "at_least NaN n = False"
| "at_least PosInfinity n = True"
| "at_least NegInfinity n = False"
| "at_least NegZero n = (n = 0)"

text \<open>\<open>x + 1\<close>, which is also what \<open>x++\<close> stores.\<close>

fun plus_one :: "number \<Rightarrow> number" where
  "plus_one (Whole k) = Whole (k + 1)"
| "plus_one (Half k) = Half (k + 1)"
| "plus_one NaN = NaN"
| "plus_one PosInfinity = PosInfinity"
| "plus_one NegInfinity = NegInfinity"
| "plus_one NegZero = Whole 1"

text \<open>
  The parser receives a value of type \<open>unknown\<close>, in practice the result of
  \<open>JSON.parse\<close> on the editor's text, and the serializer builds plain objects. Both are
  values of the datatype \<open>json\<close>. An object is the list of its own enumerable properties
  in the order \<open>Object.entries\<close> yields them; a property list is read with \<open>map_of\<close>.
  \<open>JUndefined\<close> is the value of a missing property and of \<open>cond: undefined\<close>.
  A string is the list of its characters (code units).
  (JavaScript enumerates the keys that are array indices first, in ascending order, and
  the others in the order of their creation; a list that stands for an object has them
  in that order, and so has every object that \<open>graphToJSON\<close> builds from a parsed
  graph, whose keys come from \<open>Object.entries\<close> in that order.)
\<close>

datatype json =
    JUndefined
  | JNull
  | JBool bool
  | JNum number
  | JStr string
  | JArr "json list"
  | JObj "(string \<times> json) list"

text \<open>Truthiness, as \<open>!v\<close>, \<open>v || d\<close> and \<open>if (v)\<close> read it.\<close>

fun truthy :: "json \<Rightarrow> bool" where
  "truthy JUndefined = False"
| "truthy JNull = False"
| "truthy (JBool b) = b"
| "truthy (JNum n) = nonzero n"
| "truthy (JStr s) = (s \<noteq> [])"
| "truthy (JArr xs) = True"
| "truthy (JObj kvs) = True"

text \<open>\<open>typeof v === 'object'\<close> (true of \<open>null\<close>, arrays and objects).\<close>

fun typeof_object :: "json \<Rightarrow> bool" where
  "typeof_object JNull = True"
| "typeof_object (JArr xs) = True"
| "typeof_object (JObj kvs) = True"
| "typeof_object v = False"

text \<open>\<open>a || b\<close>.\<close>

definition js_or :: "json \<Rightarrow> json \<Rightarrow> json" where
  "js_or a b = (if truthy a then a else b)"

text \<open>Decimal rendering of a non-negative integer, as a template literal prints it.\<close>

fun show_nat :: "nat \<Rightarrow> string" where
  "show_nat n =
     (if n < 10 then [''0123456789'' ! n]
      else show_nat (n div 10) @ [''0123456789'' ! (n mod 10)])"

declare show_nat.simps [simp del]

text \<open>
  The string of a number, as a template literal and \<open>Array.prototype.join\<close> produce it
  (the language prints a whole number in this way below \<open>10^21\<close>).
\<close>

fun show_number :: "number \<Rightarrow> string" where
  "show_number (Whole k) = (if k < 0 then ''-'' @ show_nat (nat (- k)) else show_nat (nat k))"
| "show_number (Half k) =
     (if k < 0 then ''-'' @ show_nat (nat (- k - 1)) @ ''.5'' else show_nat (nat k) @ ''.5'')"
| "show_number NaN = ''NaN''"
| "show_number PosInfinity = ''Infinity''"
| "show_number NegInfinity = ''-Infinity''"
| "show_number NegZero = ''0''"

text \<open>
  \<open>xs[x]\<close> for an array \<open>xs\<close> and a number \<open>x\<close>: the property key is the string of \<open>x\<close>,
  which names an element only when \<open>x\<close> is a whole number (or \<open>-0\<close>, whose string is
  \<open>0\<close>) below the length; the value is \<open>undefined\<close> (\<open>None\<close>) otherwise.
\<close>

fun element_at :: "'a list \<Rightarrow> number \<Rightarrow> 'a option" where
  "element_at xs (Whole k) = (if 0 \<le> k \<and> k < int (length xs) then Some (xs ! nat k) else None)"
| "element_at xs NegZero = (if xs = [] then None else Some (xs ! 0))"
| "element_at xs x = None"

text \<open>
  \<open>xs.slice(0, x)\<close>: the end is \<open>x\<close> truncated towards zero (\<open>NaN\<close> counts as \<open>0\<close>), counted
  from the end of the array when negative, and clamped to the array.
\<close>

definition clamp_end :: "int \<Rightarrow> nat \<Rightarrow> nat" where
  "clamp_end k len = (if k < 0 then nat (max (int len + k) 0) else min (nat k) len)"

fun slice_end :: "number \<Rightarrow> nat \<Rightarrow> nat" where
  "slice_end (Whole k) len = clamp_end k len"
| "slice_end (Half k) len = clamp_end (if k < 0 then k + 1 else k) len"
| "slice_end NaN len = 0"
| "slice_end PosInfinity len = len"
| "slice_end NegInfinity len = 0"
| "slice_end NegZero len = 0"

definition slice_to :: "'a list \<Rightarrow> number \<Rightarrow> 'a list" where
  "slice_to xs x = take (slice_end x (length xs)) xs"

text \<open>
  What the program can throw: a \<open>ParserError\<close> (parser.ts, lines 10-26), or the
  \<open>TypeError\<close> the runtime raises when a property of \<open>null\<close> or \<open>undefined\<close> is read.
  The message of a \<open>ParserError\<close> is kept as its template and the interpolated values;
  \<open>Runtime_message\<close> is the text of a \<open>TypeError\<close>, \<open>Text\<close> a message that is a plain
  string, \<open>Fatal_error m\<close> the message \<open>m\<close> behind the words \<open>Fatal Error:\<close>.
\<close>

datatype error_code = INVALID_SCHEMA | INVALID_REFERENCE | MISSING_INITIAL

datatype message =
    Input_must_be_object
  | Must_define_initial
  | Must_define_states
  | Initial_not_defined string
  | Unknown_target string json string
  | Runtime_message
  | Text string
  | Fatal_error message

record ParserError =
  code :: error_code
  details :: message
  path :: "string list option"

datatype thrown = Parser ParserError | TypeError

text \<open>
  \<open>v.k\<close> for the property names the code reads (\<open>initial\<close>, \<open>states\<close>, \<open>id\<close>,
  \<open>type\<close>, \<open>meta\<close>, \<open>on\<close>, \<open>target\<close>, \<open>cond\<close>, \<open>actions\<close>, \<open>machine\<close>,
  \<open>simulation\<close>, \<open>history\<close>): none of them is an own or inherited property of an
  array, a string, a number or a boolean, so only an object can answer with a value;
  reading a property of \<open>null\<close> or \<open>undefined\<close> throws.
\<close>

fun get_prop :: "json \<Rightarrow> string \<Rightarrow> thrown + json" where
  "get_prop JUndefined k = Inl TypeError"
| "get_prop JNull k = Inl TypeError"
| "get_prop (JObj kvs) k = Inr (case map_of kvs k of None \<Rightarrow> JUndefined | Some v \<Rightarrow> v)"
| "get_prop v k = Inr JUndefined"

text \<open>
  \<open>Object.entries(v)\<close> for a truthy \<open>v\<close>: the properties of an object, the indexed
  elements of an array, the indexed characters of a string, nothing for a number or a
  boolean.
\<close>

fun object_entries :: "json \<Rightarrow> (string \<times> json) list" where
  "object_entries (JObj kvs) = kvs"
| "object_entries (JArr xs) = zip (map show_nat [0..<length xs]) xs"
| "object_entries (JStr s) = zip (map show_nat [0..<length s]) (map (\<lambda>c. JStr [c]) s)"
| "object_entries v = []"

text \<open>
  An assignment \<open>o[k] = v\<close> to a plain object replaces the value of an existing key and
  appends a new one (\<open>AList.update\<close>), except for the key \<open>__proto__\<close>: that name is
  the accessor of the prototype, which \<open>Object.prototype\<close> provides, so the assignment
  sets the prototype (or does nothing, when \<open>v\<close> is no object) and creates no own
  property. (\<open>JSON.parse\<close> does create an own property of that name.)
\<close>

definition obj_set :: "string \<Rightarrow> json \<Rightarrow> (string \<times> json) list \<Rightarrow> (string \<times> json) list" where
  "obj_set k v props = (if k = ''__proto__'' then props else AList.update k v props)"

section \<open>The graph (engine-types.ts)\<close>

text \<open>
  A \<open>Map\<close> is an association list in insertion order: \<open>get\<close> is \<open>map_of\<close>, \<open>has\<close> is
  membership in the keys, \<open>set\<close> is \<open>AList.update\<close> (an existing key keeps its place, a
  new one goes last). A \<open>Set\<close> is a list in insertion order.
  The fields \<open>id\<close> and \<open>type\<close> are named \<open>node_id\<close>, \<open>graph_id\<close> and \<open>node_type\<close>.
  At run time \<open>type\<close>, \<open>meta\<close>, \<open>cond\<close>, \<open>actions\<close> and the graph's \<open>id\<close> hold whatever
  the definition held, so they are \<open>json\<close>. The target of a transition is whatever
  the definition held (\<open>json Transition\<close>) until the parser has found it among the
  keys of \<open>nodes\<close>; every such key is a string, so a transition stored in a graph has
  a string for its target (\<open>InternalTransition\<close>).
\<close>

record 't Transition =
  source :: string
  target :: 't
  event :: string
  cond :: json
  actions :: json

type_synonym InternalTransition = "string Transition"

record InternalStateNode =
  node_id :: string
  node_type :: json
  transitions :: "(string \<times> InternalTransition) list"
  outgoing :: "InternalTransition list"
  meta :: json

record StateMachineGraph =
  graph_id :: json
  initial :: string
  nodes :: "(string \<times> InternalStateNode) list"

definition nodes_get :: "StateMachineGraph \<Rightarrow> string \<Rightarrow> InternalStateNode option" where
  "nodes_get graph k = map_of (nodes graph) k"

definition nodes_has :: "StateMachineGraph \<Rightarrow> string \<Rightarrow> bool" where
  "nodes_has graph k = (k \<in> set (map fst (nodes graph)))"

definition set_add :: "'a \<Rightarrow> 'a list \<Rightarrow> 'a list" where
  "set_add x xs = (if x \<in> set xs then xs else xs @ [x])"

section \<open>The parser (parser.ts)\<close>

text \<open>\<open>normalizeTransition\<close> (lines 31-51).\<close>

definition normalizeTransition :: "json \<Rightarrow> string \<Rightarrow> string \<Rightarrow> thrown + json Transition" where
  "normalizeTransition targetDef sourceId ev =
     (case targetDef of
        JStr s \<Rightarrow>
          Inr \<lparr> source = sourceId, target = JStr s, event = ev, cond = JUndefined,
                actions = JArr [] \<rparr>
      | _ \<Rightarrow>
          (case get_prop targetDef ''target'' of
             Inl e \<Rightarrow> Inl e
           | Inr tg \<Rightarrow>
               (case get_prop targetDef ''cond'' of
                  Inl e \<Rightarrow> Inl e
                | Inr c \<Rightarrow>
                    (case get_prop targetDef ''actions'' of
                       Inl e \<Rightarrow> Inl e
                     | Inr a \<Rightarrow>
                         Inr \<lparr> source = sourceId, target = tg, event = ev, cond = c,
                               actions = js_or a (JArr []) \<rparr>))))"

text \<open>First pass (lines 81-90): one node per entry of \<open>states\<close>.\<close>

fun create_nodes :: "(string \<times> json) list \<Rightarrow> StateMachineGraph \<Rightarrow> thrown + StateMachineGraph" where
  "create_nodes [] graph = Inr graph"
| "create_nodes ((ident, def) # rest) graph =
     (case get_prop def ''type'' of
        Inl e \<Rightarrow> Inl e
      | Inr ty \<Rightarrow>
          (case get_prop def ''meta'' of
             Inl e \<Rightarrow> Inl e
           | Inr m \<Rightarrow>
               create_nodes rest
                 (graph \<lparr> nodes :=
                    AList.update ident
                      \<lparr> node_id = ident, node_type = js_or ty (JStr ''default''),
                        transitions = [], outgoing = [], meta = js_or m (JObj []) \<rparr>
                      (nodes graph) \<rparr>)))"

text \<open>
  The inner loop of the second pass (lines 106-123), over the entries of one state's
  \<open>on\<close>. \<open>graph.nodes.has(transition.target)\<close> holds only of a string that is a key.
  The source fetches \<open>sourceNode\<close> once and mutates it in place; the model writes the
  changed node back under the same key.
\<close>

definition unknown_target :: "string \<Rightarrow> json \<Rightarrow> string \<Rightarrow> thrown" where
  "unknown_target ident tg ev =
     Parser \<lparr> code = INVALID_REFERENCE, details = Unknown_target ident tg ev,
              path = Some [''states'', ident, ''on'', ev] \<rparr>"

fun build_edges :: "string \<Rightarrow> (string \<times> json) list \<Rightarrow> StateMachineGraph \<Rightarrow> thrown + StateMachineGraph" where
  "build_edges ident [] graph = Inr graph"
| "build_edges ident ((ev, targetDef) # rest) graph =
     (case normalizeTransition targetDef ident ev of
        Inl e \<Rightarrow> Inl e
      | Inr tr \<Rightarrow>
          (case target tr of
             JStr tg \<Rightarrow>
               if \<not> nodes_has graph tg then Inl (unknown_target ident (target tr) ev)
               else
                 (case nodes_get graph ident of
                    None \<Rightarrow> Inl TypeError
                  | Some sourceNode \<Rightarrow>
                      let t = \<lparr> source = source tr, target = tg, event = event tr,
                                cond = cond tr, actions = actions tr \<rparr>
                      in build_edges ident rest
                           (graph \<lparr> nodes :=
                              AList.update ident
                                (sourceNode \<lparr> transitions := AList.update ev t (transitions sourceNode),
                                              outgoing := outgoing sourceNode @ [t] \<rparr>)
                                (nodes graph) \<rparr>))
           | _ \<Rightarrow> Inl (unknown_target ident (target tr) ev)))"

text \<open>The outer loop of the second pass (lines 102-125).\<close>

fun link_states :: "(string \<times> json) list \<Rightarrow> StateMachineGraph \<Rightarrow> thrown + StateMachineGraph" where
  "link_states [] graph = Inr graph"
| "link_states ((ident, def) # rest) graph =
     (case get_prop def ''on'' of
        Inl e \<Rightarrow> Inl e
      | Inr on \<Rightarrow>
          if truthy on then
            (case build_edges ident (object_entries on) graph of
               Inl e \<Rightarrow> Inl e
             | Inr graph' \<Rightarrow> link_states rest graph')
          else link_states rest graph)"

text \<open>\<open>parseMachine\<close> (lines 57-128).\<close>

definition parseMachine :: "json \<Rightarrow> thrown + StateMachineGraph" where
  "parseMachine input =
     (if \<not> truthy input \<or> \<not> typeof_object input then
        Inl (Parser \<lparr> code = INVALID_SCHEMA, details = Input_must_be_object, path = None \<rparr>)
      else
        (case get_prop input ''initial'' of
           Inl e \<Rightarrow> Inl e
         | Inr (JStr init) \<Rightarrow>
             (case get_prop input ''states'' of
                Inl e \<Rightarrow> Inl e
              | Inr states \<Rightarrow>
                  if \<not> truthy states \<or> \<not> typeof_object states then
                    Inl (Parser \<lparr> code = INVALID_SCHEMA, details = Must_define_states,
                                  path = None \<rparr>)
                  else
                    (case get_prop input ''id'' of
                       Inl e \<Rightarrow> Inl e
                     | Inr i \<Rightarrow>
                         (case create_nodes (object_entries states)
                                 \<lparr> graph_id = js_or i (JStr ''crypto-machine''),
                                   initial = init, nodes = [] \<rparr> of
                            Inl e \<Rightarrow> Inl e
                          | Inr graph \<Rightarrow>
                              if \<not> nodes_has graph (initial graph) then
                                Inl (Parser \<lparr> code = INVALID_REFERENCE,
                                              details = Initial_not_defined (initial graph),
                                              path = Some [''initial''] \<rparr>)
                              else link_states (object_entries states) graph)))
         | Inr _ \<Rightarrow>
             Inl (Parser \<lparr> code = MISSING_INITIAL, details = Must_define_initial,
                           path = None \<rparr>)))"

section \<open>The analyzer (analyzer.ts)\<close>

text \<open>
  \<open>analyzeReachability\<close> (lines 24-49). The \<open>for\<close> loop over \<open>node.outgoing\<close> is
  \<open>visit_targets\<close>; the \<open>while\<close> loop over the queue is \<open>bfs\<close>: \<open>queue.shift()\<close> takes the
  head, \<open>queue.push\<close> appends.
\<close>

fun visit_targets :: "InternalTransition list \<Rightarrow> string list \<times> string list \<Rightarrow> string list \<times> string list" where
  "visit_targets [] (reachable, queue) = (reachable, queue)"
| "visit_targets (t # ts) (reachable, queue) =
     (if target t \<notin> set reachable
      then visit_targets ts (reachable @ [target t], queue @ [target t])
      else visit_targets ts (reachable, queue))"

text \<open>Every target of every edge of the graph: the finite set that bounds both traversals.\<close>

definition all_targets :: "StateMachineGraph \<Rightarrow> string set" where
  "all_targets graph = (\<Union>node \<in> snd ` set (nodes graph). target ` set (outgoing node))"

lemma finite_all_targets: "finite (all_targets graph)"
  by (simp add: all_targets_def)

lemma visit_targets_cases:
  "visit_targets ts (r, q) = (r', q') \<Longrightarrow>
     (r' = r \<and> q' = q) \<or> (set r \<subset> set r' \<and> set r' \<subseteq> set r \<union> target ` set ts)"
proof (induction ts arbitrary: r q)
  case Nil
  then show ?case by simp
next
  case (Cons t ts)
  show ?case
  proof (cases "target t \<in> set r")
    case True
    with Cons.prems have "visit_targets ts (r, q) = (r', q')" by simp
    from Cons.IH[OF this]
    have "(r' = r \<and> q' = q) \<or> (set r \<subset> set r' \<and> set r' \<subseteq> set r \<union> target ` set ts)" .
    moreover have "set r \<union> target ` set ts \<subseteq> set r \<union> target ` set (t # ts)" by auto
    ultimately show ?thesis by blast
  next
    case False
    let ?r = "r @ [target t]"
    from False Cons.prems have "visit_targets ts (?r, q @ [target t]) = (r', q')" by simp
    from Cons.IH[OF this]
    have "set ?r \<subseteq> set r'" and up: "set r' \<subseteq> set ?r \<union> target ` set ts" by auto
    then have "target t \<in> set r'" and sub: "set r \<subseteq> set r'" by auto
    with False have "set r \<subset> set r'" by blast
    moreover have "set ?r \<union> target ` set ts \<subseteq> set r \<union> target ` set (t # ts)" by auto
    with up have "set r' \<subseteq> set r \<union> target ` set (t # ts)" by (rule subset_trans)
    ultimately show ?thesis by blast
  qed
qed

lemma outgoing_targets_in_all:
  "nodes_get graph x = Some node \<Longrightarrow> target ` set (outgoing node) \<subseteq> all_targets graph"
  unfolding nodes_get_def all_targets_def
  by (force dest: map_of_SomeD)

lemma card_diff_less:
  assumes "finite U" "set r \<subset> set r'" "set r' \<subseteq> set r \<union> U"
  shows "card (U - set r') < card (U - set r)"
proof -
  from assms(2) obtain x where x: "x \<in> set r'" "x \<notin> set r" by auto
  with assms(3) have "x \<in> U" by auto
  with x have "U - set r' \<subset> U - set r" using assms(2) by auto
  then show ?thesis using assms(1) by (simp add: psubset_card_mono)
qed

function bfs :: "StateMachineGraph \<Rightarrow> string list \<Rightarrow> string list \<Rightarrow> string list" where
  "bfs graph reachable [] = reachable"
| "bfs graph reachable (ident # queue) =
     (case nodes_get graph ident of
        None \<Rightarrow> bfs graph reachable queue
      | Some node \<Rightarrow>
          (case visit_targets (outgoing node) (reachable, queue) of
             (reachable', queue') \<Rightarrow> bfs graph reachable' queue'))"
  by pat_completeness auto
termination
proof (relation "measures [\<lambda>(graph, reachable, queue). card (all_targets graph - set reachable),
                           \<lambda>(graph, reachable, queue). length queue]", goal_cases)
  case 1
  show ?case by simp
next
  case (2 graph reachable ident queue)
  show ?case by simp
next
  case (3 graph reachable ident queue node reachable' queue')
  then have eq: "visit_targets (outgoing node) (reachable, queue) = (reachable', queue')" by simp
  from visit_targets_cases[OF eq] outgoing_targets_in_all[OF 3(1)]
  have "(reachable' = reachable \<and> queue' = queue) \<or>
        (set reachable \<subset> set reachable' \<and> set reachable' \<subseteq> set reachable \<union> all_targets graph)"
    by blast
  then show ?case
  proof
    assume "reachable' = reachable \<and> queue' = queue"
    then show ?thesis by simp
  next
    assume "set reachable \<subset> set reachable' \<and> set reachable' \<subseteq> set reachable \<union> all_targets graph"
    then have "card (all_targets graph - set reachable') < card (all_targets graph - set reachable)"
      using card_diff_less[OF finite_all_targets] by blast
    then show ?thesis by simp
  qed
qed


text \<open>
  \<open>analyzeCycles\<close> (lines 75-113). The closure's \<open>cycles\<close>, \<open>visited\<close> and
  \<open>recursionStack\<close> and the one \<open>path\<close> array every call shares are the traversal state
  (\<open>cycles\<close> and \<open>path\<close> are named \<open>dfs_cycles\<close> and \<open>dfs_path\<close>). \<open>dfs\<close> is the inner
  function, \<open>dfs_for\<close> its \<open>for\<close> loop over \<open>node.outgoing\<close>.
  \<open>path.slice(path.indexOf(x))\<close> is \<open>slice_from\<close>: \<open>indexOf\<close> answers \<open>-1\<close> for an absent
  element and \<open>slice(-1)\<close> is the last element.
\<close>

record dfs_state =
  dfs_cycles :: "string list list"
  visited :: "string list"
  recursionStack :: "string list"
  dfs_path :: "string list"

definition new_Set :: "'a list \<Rightarrow> 'a list" where
  "new_Set xs = fold set_add xs []"

definition slice_from :: "string list \<Rightarrow> string \<Rightarrow> string list" where
  "slice_from p x =
     (if x \<in> set p then dropWhile (\<lambda>y. y \<noteq> x) p
      else if p = [] then [] else [last p])"

function dfs :: "StateMachineGraph \<Rightarrow> string \<Rightarrow> dfs_state \<Rightarrow> dfs_state"
  and dfs_for :: "StateMachineGraph \<Rightarrow> InternalTransition list \<Rightarrow> dfs_state \<Rightarrow> dfs_state" where
  "dfs graph currentId st =
     (let st1 = st \<lparr> visited := set_add currentId (visited st),
                     recursionStack := set_add currentId (recursionStack st),
                     dfs_path := dfs_path st @ [currentId] \<rparr>;
          st2 = (case nodes_get graph currentId of
                   None \<Rightarrow> st1
                 | Some node \<Rightarrow> dfs_for graph (outgoing node) st1)
      in st2 \<lparr> recursionStack := removeAll currentId (recursionStack st2),
               dfs_path := butlast (dfs_path st2) \<rparr>)"
| "dfs_for graph [] st = st"
| "dfs_for graph (t # ts) st =
     (if target t \<notin> set (visited st) then dfs_for graph ts (dfs graph (target t) st)
      else if target t \<in> set (recursionStack st) then
        dfs_for graph ts
          (st \<lparr> dfs_cycles := dfs_cycles st @ [new_Set (slice_from (dfs_path st) (target t))] \<rparr>)
      else dfs_for graph ts st)"
  by pat_completeness auto

lemma set_set_add: "set (set_add x xs) = insert x (set xs)"
  by (auto simp: set_add_def)

lemma dfs_visited_mono_dom:
  "dfs_dfs_for_dom (Inl (graph, currentId, st)) \<Longrightarrow> set (visited st) \<subseteq> set (visited (dfs graph currentId st))"
  "dfs_dfs_for_dom (Inr (graph, ts, st)) \<Longrightarrow> set (visited st) \<subseteq> set (visited (dfs_for graph ts st))"
proof (induction graph currentId st and graph ts st rule: dfs_dfs_for.pinduct)
  case (1 graph currentId st)
  show ?case
  proof (cases "nodes_get graph currentId")
    case None
    then show ?thesis using 1(1) by (auto simp: dfs.psimps set_set_add Let_def)
  next
    case (Some node)
    from 1(2)[OF refl Some] Some show ?thesis
      using 1(1) by (auto simp: dfs.psimps set_set_add Let_def)
  qed
next
  case (2 graph st)
  then show ?case by (simp add: dfs_for.psimps)
next
  case (3 graph t ts st)
  show ?case
  proof (cases "target t \<notin> set (visited st)")
    case True
    from 3(2)[OF True] 3(3)[OF True] show ?thesis
      using 3(1) True by (auto simp: dfs_for.psimps)
  next
    case False
    then show ?thesis
      using 3(1) 3(4)[OF False] 3(5)[OF False] by (auto simp: dfs_for.psimps)
  qed
qed

text \<open>
  Termination: a call of \<open>dfs\<close> marks a node that was not marked, of the finitely many
  there are; the loop shortens its list.
\<close>

definition out_degree :: "StateMachineGraph \<Rightarrow> string \<Rightarrow> nat" where
  "out_degree graph x = (case nodes_get graph x of None \<Rightarrow> 0 | Some node \<Rightarrow> length (outgoing node))"

fun dfs_unvisited :: "(StateMachineGraph \<times> string \<times> dfs_state) + (StateMachineGraph \<times> InternalTransition list \<times> dfs_state) \<Rightarrow> nat" where
  "dfs_unvisited (Inl (graph, currentId, st)) =
     card (all_targets graph - insert currentId (set (visited st)))"
| "dfs_unvisited (Inr (graph, ts, st)) =
     card ((all_targets graph \<union> target ` set ts) - set (visited st))"

fun dfs_pending :: "(StateMachineGraph \<times> string \<times> dfs_state) + (StateMachineGraph \<times> InternalTransition list \<times> dfs_state) \<Rightarrow> nat" where
  "dfs_pending (Inl (graph, currentId, st)) = 2 + out_degree graph currentId"
| "dfs_pending (Inr (graph, ts, st)) = 1 + length ts"

termination dfs
proof (relation "measures [dfs_unvisited, dfs_pending]", goal_cases)
  case 1
  show ?case by simp
next
  case (2 graph currentId st st1 node)
  have "all_targets graph \<union> target ` set (outgoing node) = all_targets graph"
    using outgoing_targets_in_all[OF 2(2)] by blast
  then show ?case using 2 by (simp add: set_set_add out_degree_def)
next
  case (3 graph t ts st)
  have fin: "finite ((all_targets graph \<union> target ` set (t # ts)) - set (visited st))"
    by (simp add: finite_all_targets)
  have "all_targets graph - insert (target t) (set (visited st))
        \<subset> (all_targets graph \<union> target ` set (t # ts)) - set (visited st)"
    using 3 by auto
  from psubset_card_mono[OF fin this] show ?case by simp
next
  case (4 graph t ts st)
  from dfs_visited_mono_dom(1)[OF 4(2)]
  have "(all_targets graph \<union> target ` set ts) - set (visited (dfs graph (target t) st))
        \<subseteq> (all_targets graph \<union> target ` set (t # ts)) - set (visited st)"
    by auto
  then have "card ((all_targets graph \<union> target ` set ts) - set (visited (dfs graph (target t) st)))
        \<le> card ((all_targets graph \<union> target ` set (t # ts)) - set (visited st))"
    by (intro card_mono) (simp_all add: finite_all_targets)
  then show ?case by (auto simp: le_less)
next
  case (5 graph t ts st)
  have "card ((all_targets graph \<union> target ` set ts) - set (visited st))
        \<le> card ((all_targets graph \<union> target ` set (t # ts)) - set (visited st))"
    by (intro card_mono) (auto simp: finite_all_targets)
  then show ?case by (auto simp: le_less)
next
  case (6 graph t ts st)
  have "card ((all_targets graph \<union> target ` set ts) - set (visited st))
        \<le> card ((all_targets graph \<union> target ` set (t # ts)) - set (visited st))"
    by (intro card_mono) (auto simp: finite_all_targets)
  then show ?case by (auto simp: le_less)
qed

definition analyzeCycles :: "StateMachineGraph \<Rightarrow> string list list" where
  "analyzeCycles graph =
     (if nodes_has graph (initial graph)
      then dfs_cycles (dfs graph (initial graph)
             \<lparr> dfs_cycles = [], visited = [], recursionStack = [], dfs_path = [] \<rparr>)
      else [])"

definition analyzeReachability :: "StateMachineGraph \<Rightarrow> string list \<times> string list" where
  "analyzeReachability graph =
     (let reachable = bfs graph [initial graph] [initial graph];
          orphans = fold (\<lambda>ident acc. if ident \<notin> set reachable then set_add ident acc else acc)
                      (map fst (nodes graph)) []
      in (reachable, orphans))"

text \<open>\<open>analyzeDeadEnds\<close> (lines 56-68).\<close>

definition analyzeDeadEnds :: "StateMachineGraph \<Rightarrow> string list \<Rightarrow> string list" where
  "analyzeDeadEnds graph reachable =
     fold (\<lambda>(ident, node) deadEnds.
             if ident \<notin> set reachable then deadEnds
             else if node_type node \<noteq> JStr ''final'' \<and> length (outgoing node) = 0
             then set_add ident deadEnds
             else deadEnds)
       (nodes graph) []"

text \<open>\<open>analyzeNondeterminism\<close> (lines 126-130) and \<open>analyzeGraph\<close> (lines 135-148).\<close>

definition analyzeNondeterminism :: "StateMachineGraph \<Rightarrow> (string \<times> string list) list" where
  "analyzeNondeterminism graph = []"

record AnalysisResult =
  reachable :: "string list"
  orphans :: "string list"
  deadEnds :: "string list"
  cycles :: "string list list"
  nondeterministic :: "(string \<times> string list) list"

definition analyzeGraph :: "StateMachineGraph \<Rightarrow> AnalysisResult" where
  "analyzeGraph graph =
     (case analyzeReachability graph of
        (r, orph) \<Rightarrow>
          \<lparr> reachable = r, orphans = orph, deadEnds = analyzeDeadEnds graph r,
            cycles = analyzeCycles graph,
            nondeterministic = analyzeNondeterminism graph \<rparr>)"

text \<open>
  What the claims mean by reachable: the ids that a path of outgoing transitions leads
  to from the initial state.
\<close>

definition successors :: "StateMachineGraph \<Rightarrow> string \<Rightarrow> string set" where
  "successors graph x =
     (case nodes_get graph x of None \<Rightarrow> {} | Some node \<Rightarrow> target ` set (outgoing node))"

definition reachable_ids :: "StateMachineGraph \<Rightarrow> string set" where
  "reachable_ids graph = {y. (initial graph, y) \<in> {(x, y). y \<in> successors graph x}\<^sup>*}"

section \<open>The simulation engine (simulation.ts)\<close>

text \<open>
  The state of an engine. \<open>steps\<close> is a number of the language: the constructor sets it to
  \<open>0\<close>, \<open>send\<close> increments it and \<open>timeTravel\<close> stores its argument there.
  \<open>activeStateId\<close> is a string, or \<open>undefined\<close> (\<open>None\<close>) after \<open>timeTravel\<close> has read
  \<open>history[stepIndex]\<close> at an index that names no element.
\<close>

record SimulationState =
  activeStateId :: "string option"
  steps :: number
  history :: "string list"
  log :: "string list"

datatype failure_reason = INVALID_EVENT | NO_TRANSITION | GUARD_PREVENTED

datatype TransitionResult = Success string json | Failure failure_reason

fun reason_name :: "failure_reason \<Rightarrow> string" where
  "reason_name INVALID_EVENT = ''INVALID_EVENT''"
| "reason_name NO_TRANSITION = ''NO_TRANSITION''"
| "reason_name GUARD_PREVENTED = ''GUARD_PREVENTED''"

text \<open>
  The pure transition function (lines 19-50); a guard is recognised, never evaluated.
  No key of \<open>graph.nodes\<close> is \<open>undefined\<close>, so \<open>graph.nodes.get(undefined)\<close> is
  \<open>undefined\<close>.
\<close>

definition transition :: "StateMachineGraph \<Rightarrow> string option \<Rightarrow> string \<Rightarrow> TransitionResult" where
  "transition graph currentStateId ev =
     (case Option.bind currentStateId (nodes_get graph) of
        None \<Rightarrow> Failure NO_TRANSITION
      | Some node \<Rightarrow>
          (case map_of (transitions node) ev of
             None \<Rightarrow> Failure INVALID_EVENT
           | Some t \<Rightarrow> Success (target t) (actions t)))"

text \<open>
  The engine is its graph and its state; each method takes the state and returns the new
  one (which is also the snapshot the method returns). No method has a \<open>throw\<close>, so none
  has an error branch.
\<close>

definition new_engine :: "StateMachineGraph \<Rightarrow> SimulationState" where
  "new_engine graph =
     \<lparr> activeStateId = Some (initial graph), steps = Whole 0, history = [initial graph],
       log = [''Initialized at '' @ initial graph] \<rparr>"

definition reset :: "StateMachineGraph \<Rightarrow> SimulationState" where
  "reset graph =
     \<lparr> activeStateId = Some (initial graph), steps = Whole 0, history = [initial graph],
       log = [''Reset to '' @ initial graph] \<rparr>"

definition send :: "StateMachineGraph \<Rightarrow> SimulationState \<Rightarrow> string \<Rightarrow> SimulationState" where
  "send graph st ev =
     (case transition graph (activeStateId st) ev of
        Success nextState acts \<Rightarrow>
          \<lparr> activeStateId = Some nextState, steps = plus_one (steps st),
            history = history st @ [nextState],
            log = log st @ [''Event '' @ [CHR 0x27] @ ev @ [CHR 0x27]
                    @ '' -> Transitioned to '' @ [CHR 0x27] @ nextState @ [CHR 0x27]] \<rparr>
      | Failure reason \<Rightarrow>
          st \<lparr> log := log st @ [''Event '' @ [CHR 0x27] @ ev @ [CHR 0x27]
                    @ '' -> Failed: '' @ reason_name reason] \<rparr>)"

definition getAvailableEvents :: "StateMachineGraph \<Rightarrow> SimulationState \<Rightarrow> string list" where
  "getAvailableEvents graph st =
     (case Option.bind (activeStateId st) (nodes_get graph) of
        None \<Rightarrow> []
      | Some node \<Rightarrow> map fst (transitions node))"

text \<open>
  \<open>timeTravel\<close> (lines 116-135). The parameter is a number, and the guard
  \<open>stepIndex < 0 || stepIndex >= history.length\<close> sends back the negative numbers and
  those from the length on: \<open>NaN\<close>, for which both comparisons are false, and a fraction
  between \<open>0\<close> and the length go on to the assignment, as the whole numbers in range do.
\<close>

definition timeTravel :: "SimulationState \<Rightarrow> number \<Rightarrow> SimulationState" where
  "timeTravel st stepIndex =
     (if negative stepIndex \<or> at_least stepIndex (length (history st)) then st
      else
        \<lparr> activeStateId = element_at (history st) stepIndex,
          steps = stepIndex,
          history = slice_to (history st) (plus_one stepIndex),
          log = slice_to (log st) (plus_one stepIndex)
                  @ [''Time traveled to step '' @ show_number stepIndex] \<rparr>)"

text \<open>The states an engine over \<open>graph\<close> can be in: constructed, then any calls.\<close>

inductive engine_state :: "StateMachineGraph \<Rightarrow> SimulationState \<Rightarrow> bool" where
  constructed: "engine_state graph (new_engine graph)"
| after_send: "engine_state graph st \<Longrightarrow> engine_state graph (send graph st ev)"
| after_reset: "engine_state graph st \<Longrightarrow> engine_state graph (reset graph)"
| after_timeTravel: "engine_state graph st \<Longrightarrow> engine_state graph (timeTravel st x)"

text \<open>The invariant of the specification: \<open>history.length === steps + 1\<close>.\<close>

definition history_invariant :: "SimulationState \<Rightarrow> bool" where
  "history_invariant st \<longleftrightarrow> Whole (int (length (history st))) = plus_one (steps st)"

section \<open>The diagnostics reporter (diagnostics.ts)\<close>

text \<open>
  The fields \<open>code\<close>, \<open>message\<close> and \<open>path\<close> of an issue are named \<open>issue_code\<close>,
  \<open>issue_message\<close> and \<open>issue_path\<close>.
\<close>

datatype DiagnosticSeverity = Sev_error | Sev_warning | Sev_info

datatype report_status = Status_valid | Status_warning | Status_error

record DiagnosticIssue =
  issue_code :: string
  severity :: DiagnosticSeverity
  issue_message :: message
  issue_path :: "string list option"
  relatedIds :: "string list option"

record Metrics =
  totalStates :: nat
  totalTransitions :: nat
  cyclomaticComplexity :: nat

record DiagnosticReport =
  status :: report_status
  issues :: "DiagnosticIssue list"
  summary :: message
  metrics :: Metrics

fun join :: "string \<Rightarrow> string list \<Rightarrow> string" where
  "join sep [] = []"
| "join sep [x] = x"
| "join sep (x # y # ys) = x @ sep @ join sep (y # ys)"

fun status_upper :: "report_status \<Rightarrow> string" where
  "status_upper Status_valid = ''VALID''"
| "status_upper Status_warning = ''WARNING''"
| "status_upper Status_error = ''ERROR''"

fun code_name :: "error_code \<Rightarrow> string" where
  "code_name INVALID_SCHEMA = ''INVALID_SCHEMA''"
| "code_name INVALID_REFERENCE = ''INVALID_REFERENCE''"
| "code_name MISSING_INITIAL = ''MISSING_INITIAL''"

definition unreachable_issue :: "string \<Rightarrow> DiagnosticIssue" where
  "unreachable_issue ident =
     \<lparr> issue_code = ''UNREACHABLE_STATE'', severity = Sev_warning,
       issue_message = Text (''State '' @ [CHR 0x27] @ ident @ [CHR 0x27]
                               @ '' is not reachable from the initial state.''),
       issue_path = Some [''states'', ident], relatedIds = Some [ident] \<rparr>"

definition dead_end_issue :: "string \<Rightarrow> DiagnosticIssue" where
  "dead_end_issue ident =
     \<lparr> issue_code = ''DEAD_END'', severity = Sev_warning,
       issue_message = Text (''State '' @ [CHR 0x27] @ ident @ [CHR 0x27]
                               @ '' is a dead end (not final, no transitions).''),
       issue_path = Some [''states'', ident], relatedIds = Some [ident] \<rparr>"

definition cycle_issue :: "string list \<Rightarrow> DiagnosticIssue" where
  "cycle_issue cycle =
     \<lparr> issue_code = ''CYCLE_DETECTED'', severity = Sev_info,
       issue_message = Text (''Cycle detected: '' @ join '' -> '' cycle),
       issue_path = None, relatedIds = Some cycle \<rparr>"

text \<open>\<open>generateReport\<close> (lines 29-98); the three \<open>forEach\<close> loops push in this order.\<close>

definition generateReport :: "StateMachineGraph \<Rightarrow> AnalysisResult \<Rightarrow> DiagnosticReport" where
  "generateReport graph analysis =
     (let issues = map unreachable_issue (orphans analysis)
                   @ map dead_end_issue (deadEnds analysis)
                   @ map cycle_issue (cycles analysis);
          transitionCount = sum_list (map (\<lambda>(ident, node). length (outgoing node)) (nodes graph));
          hasError = list_ex (\<lambda>i. severity i = Sev_error) issues;
          hasWarning = list_ex (\<lambda>i. severity i = Sev_warning) issues;
          status = (if hasError then Status_error
                    else if hasWarning then Status_warning else Status_valid);
          summaryLines =
            [''Analysis Complete: '' @ status_upper status,
             ''Found '' @ show_nat (length issues) @ '' issues.'']
            @ (if length (orphans analysis) > 0
               then [''- '' @ show_nat (length (orphans analysis)) @ '' unreachable states.'']
               else [])
            @ (if length (deadEnds analysis) > 0
               then [''- '' @ show_nat (length (deadEnds analysis)) @ '' dead-end states.'']
               else [])
            @ (if length (cycles analysis) > 0
               then [''- '' @ show_nat (length (cycles analysis)) @ '' cycles detected.'']
               else [])
      in \<lparr> status = status, issues = issues,
           summary = Text (join [CHR 0x0A] summaryLines),
           metrics = \<lparr> totalStates = length (nodes graph),
                       totalTransitions = transitionCount,
                       cyclomaticComplexity = length (cycles analysis) \<rparr> \<rparr>)"

text \<open>\<open>formatParserError\<close> (lines 103-119).\<close>

definition formatParserError :: "ParserError \<Rightarrow> DiagnosticReport" where
  "formatParserError err =
     \<lparr> status = Status_error,
       issues = [\<lparr> issue_code = code_name (code err), severity = Sev_error,
                    issue_message = details err, issue_path = path err,
                    relatedIds = None \<rparr>],
       summary = Fatal_error (details err),
       metrics = \<lparr> totalStates = 0, totalTransitions = 0, cyclomaticComplexity = 0 \<rparr> \<rparr>"

section \<open>The session serializer (serializer.ts)\<close>

text \<open>
  The test \<open>t.actions.length > 0\<close> of \<open>graphToJSON\<close> (line 39) compares whatever
  \<open>t.actions.length\<close> is with a number, so the language converts it to a number first.
  An array or an object is converted through its string: an array through
  \<open>Array.prototype.join\<close>, which writes nothing for \<open>null\<close> and \<open>undefined\<close>; an object
  through \<open>Object.prototype.toString\<close>, unless it has an own property \<open>toString\<close>, which in
  a value that came from JSON is no function: then no method yields a primitive value
  and the conversion raises a \<open>TypeError\<close>.
\<close>

fun to_string :: "json \<Rightarrow> thrown + string"
  and join_elements :: "json list \<Rightarrow> thrown + string" where
  "to_string JUndefined = Inr ''undefined''"
| "to_string JNull = Inr ''null''"
| "to_string (JBool b) = Inr (if b then ''true'' else ''false'')"
| "to_string (JNum n) = Inr (show_number n)"
| "to_string (JStr s) = Inr s"
| "to_string (JArr xs) = join_elements xs"
| "to_string (JObj kvs) =
     (if ''toString'' \<in> set (map fst kvs) then Inl TypeError else Inr ''[object Object]'')"
| "join_elements [] = Inr []"
| "join_elements (v # vs) =
     (case (if v = JUndefined \<or> v = JNull then Inr [] else to_string v) of
        Inl e \<Rightarrow> Inl e
      | Inr s \<Rightarrow>
          if vs = [] then Inr s
          else (case join_elements vs of
                  Inl e \<Rightarrow> Inl e
                | Inr r \<Rightarrow> Inr (s @ '','' @ r)))"

text \<open>
  \<open>v > 0\<close>. The conversion of a string to a number follows the numeric grammar of the
  language and rounds to binary64; it is not modelled: \<open>is_positive s\<close> stands for
  \<open>Number(s) > 0\<close>, and every function that compares takes it as a parameter.
  The string \<open>[object Object]\<close> is no numeral, so an object without an own \<open>toString\<close>
  converts to \<open>NaN\<close>.
\<close>

fun greater_than_zero :: "(string \<Rightarrow> bool) \<Rightarrow> json \<Rightarrow> thrown + bool" where
  "greater_than_zero is_positive JUndefined = Inr False"
| "greater_than_zero is_positive JNull = Inr False"
| "greater_than_zero is_positive (JBool b) = Inr b"
| "greater_than_zero is_positive (JNum n) = Inr (positive n)"
| "greater_than_zero is_positive (JStr s) = Inr (is_positive s)"
| "greater_than_zero is_positive (JArr xs) =
     (case join_elements xs of Inl e \<Rightarrow> Inl e | Inr s \<Rightarrow> Inr (is_positive s))"
| "greater_than_zero is_positive (JObj kvs) =
     (if ''toString'' \<in> set (map fst kvs) then Inl TypeError else Inr False)"

text \<open>
  \<open>a.length > 0\<close>: the number of elements of an array (the declared type of \<open>actions\<close> is
  \<open>string[]\<close>) or of characters of a string; the own property \<open>length\<close> of an object,
  \<open>undefined\<close> when it has none; a number or a boolean has no \<open>length\<close>. Reading a
  property of \<open>null\<close> or \<open>undefined\<close> throws.
\<close>

fun length_positive :: "(string \<Rightarrow> bool) \<Rightarrow> json \<Rightarrow> thrown + bool" where
  "length_positive is_positive (JArr xs) = Inr (length xs > 0)"
| "length_positive is_positive (JStr s) = Inr (length s > 0)"
| "length_positive is_positive (JObj kvs) =
     greater_than_zero is_positive (case map_of kvs ''length'' of None \<Rightarrow> JUndefined | Some v \<Rightarrow> v)"
| "length_positive is_positive (JBool b) = Inr False"
| "length_positive is_positive (JNum n) = Inr False"
| "length_positive is_positive JNull = Inl TypeError"
| "length_positive is_positive JUndefined = Inl TypeError"

text \<open>
  \<open>graphToJSON\<close> (lines 26-59). The condition \<open>t.cond || (t.actions && t.actions.length > 0)\<close>
  reads \<open>length\<close> only when \<open>cond\<close> is falsy and \<open>actions\<close> truthy. The two loops are
  recursive functions over the entries of the \<open>Map\<close>; \<open>states[id] = stateDef\<close> and
  \<open>stateDef.on[event] = ...\<close> are assignments to plain objects (\<open>obj_set\<close>).
\<close>

definition transition_to_json :: "(string \<Rightarrow> bool) \<Rightarrow> InternalTransition \<Rightarrow> thrown + json" where
  "transition_to_json is_positive t =
     (case (if truthy (cond t) then Inr True
            else if truthy (actions t) then length_positive is_positive (actions t)
            else Inr False) of
        Inl e \<Rightarrow> Inl e
      | Inr object_form \<Rightarrow>
          Inr (if object_form
               then JObj [(''target'', JStr (target t)), (''cond'', cond t), (''actions'', actions t)]
               else JStr (target t)))"

fun on_to_json :: "(string \<Rightarrow> bool) \<Rightarrow> (string \<times> InternalTransition) list
    \<Rightarrow> (string \<times> json) list \<Rightarrow> thrown + (string \<times> json) list" where
  "on_to_json is_positive [] on = Inr on"
| "on_to_json is_positive ((ev, t) # rest) on =
     (case transition_to_json is_positive t of
        Inl e \<Rightarrow> Inl e
      | Inr v \<Rightarrow> on_to_json is_positive rest (obj_set ev v on))"

definition state_to_json :: "(string \<Rightarrow> bool) \<Rightarrow> InternalStateNode \<Rightarrow> thrown + json" where
  "state_to_json is_positive node =
     (if length (transitions node) > 0
      then (case on_to_json is_positive (transitions node) [] of
              Inl e \<Rightarrow> Inl e
            | Inr on \<Rightarrow>
                Inr (JObj [(''type'', node_type node), (''meta'', meta node), (''on'', JObj on)]))
      else Inr (JObj [(''type'', node_type node), (''meta'', meta node)]))"

fun states_to_json :: "(string \<Rightarrow> bool) \<Rightarrow> (string \<times> InternalStateNode) list
    \<Rightarrow> (string \<times> json) list \<Rightarrow> thrown + (string \<times> json) list" where
  "states_to_json is_positive [] states = Inr states"
| "states_to_json is_positive ((ident, node) # rest) states =
     (case state_to_json is_positive node of
        Inl e \<Rightarrow> Inl e
      | Inr stateDef \<Rightarrow> states_to_json is_positive rest (obj_set ident stateDef states))"

definition graphToJSON :: "(string \<Rightarrow> bool) \<Rightarrow> StateMachineGraph \<Rightarrow> thrown + json" where
  "graphToJSON is_positive graph =
     (case states_to_json is_positive (nodes graph) [] of
        Inl e \<Rightarrow> Inl e
      | Inr states \<Rightarrow> Inr (JObj [(''initial'', JStr (initial graph)), (''states'', JObj states)]))"

fun is_object :: "json \<Rightarrow> bool" where
  "is_object (JObj kvs) = True"
| "is_object v = False"

text \<open>No \<open>actions\<close> field of the graph is an object (the declared type is \<open>string[]\<close>).\<close>

definition actions_typed :: "StateMachineGraph \<Rightarrow> bool" where
  "actions_typed graph =
     list_all (\<lambda>(ident, node). list_all (\<lambda>(ev, t). \<not> is_object (actions t)) (transitions node))
       (nodes graph)"

text \<open>No state and no event of the graph is named \<open>__proto__\<close>.\<close>

definition plain_keys :: "StateMachineGraph \<Rightarrow> bool" where
  "plain_keys graph =
     list_all (\<lambda>(ident, node). ident \<noteq> ''__proto__''
                \<and> list_all (\<lambda>(ev, t). ev \<noteq> ''__proto__'') (transitions node))
       (nodes graph)"

text \<open>
  \<open>JSON.stringify\<close> and \<open>JSON.parse\<close> belong to the language. A JSON text is represented
  by the value it denotes; \<open>Not_JSON\<close> is a string that does not parse. Serializing drops
  the properties whose value is \<open>undefined\<close>, writes \<open>null\<close> for \<open>undefined\<close> in an
  array, \<open>null\<close> for \<open>NaN\<close> and the infinities, and \<open>0\<close> for the negative zero
  (\<open>jsonify\<close>); parsing gives the denoted value back.
\<close>

fun json_number :: "number \<Rightarrow> json" where
  "json_number (Whole k) = JNum (Whole k)"
| "json_number (Half k) = JNum (Half k)"
| "json_number NaN = JNull"
| "json_number PosInfinity = JNull"
| "json_number NegInfinity = JNull"
| "json_number NegZero = JNum (Whole 0)"

fun jsonify :: "json \<Rightarrow> json" where
  "jsonify (JArr xs) = JArr (map (\<lambda>v. if v = JUndefined then JNull else jsonify v) xs)"
| "jsonify (JObj kvs) =
     JObj (map (\<lambda>(k, v). (k, jsonify v)) (filter (\<lambda>(k, v). v \<noteq> JUndefined) kvs))"
| "jsonify (JNum n) = json_number n"
| "jsonify v = v"

datatype json_text = Denoting json | Not_JSON

datatype syntax_error = SyntaxError

definition JSON_stringify :: "json \<Rightarrow> json_text" where
  "JSON_stringify v = Denoting (jsonify v)"

definition JSON_parse :: "json_text \<Rightarrow> syntax_error + json" where
  "JSON_parse t = (case t of Denoting v \<Rightarrow> Inr v | Not_JSON \<Rightarrow> Inl SyntaxError)"

text \<open>
  \<open>exportSession\<close> (lines 64-85); \<open>now\<close> is what \<open>new Date().toISOString()\<close> returns.
  The engine is its graph and its state. What \<open>graphToJSON\<close> throws, \<open>exportSession\<close>
  throws.
\<close>

record SimulationEngine =
  sim_graph :: StateMachineGraph
  sim_state :: SimulationState

definition exportSession :: "(string \<Rightarrow> bool) \<Rightarrow> string \<Rightarrow> StateMachineGraph \<Rightarrow> SimulationEngine
    \<Rightarrow> thrown + json_text" where
  "exportSession is_positive now graph sim =
     (case graphToJSON is_positive graph of
        Inl e \<Rightarrow> Inl e
      | Inr machine \<Rightarrow>
          (let simState = sim_state sim;
               session =
                 JObj [(''machine'', machine),
                       (''simulation'',
                          JObj [(''history'', JArr (map JStr (history simState))),
                                (''log'', JArr (map JStr (log simState))),
                                (''currentStep'', JNum (steps simState))]),
                       (''meta'',
                          JObj [(''createdAt'', JStr now), (''version'', JStr ''1.0.0'')])]
           in Inr (JSON_stringify session)))"

text \<open>
  \<open>importSession\<close> (lines 90-108): whatever is thrown inside the \<open>try\<close> is rethrown as
  one \<open>Error\<close>. The result is the pair of \<open>machine\<close> and \<open>history\<close>.
\<close>

datatype import_error = Failed_to_import

definition importSession :: "json_text \<Rightarrow> import_error + json \<times> json" where
  "importSession jsonString =
     (case JSON_parse jsonString of
        Inl e \<Rightarrow> Inl Failed_to_import
      | Inr session \<Rightarrow>
          (case get_prop session ''machine'' of
             Inl e \<Rightarrow> Inl Failed_to_import
           | Inr machine \<Rightarrow>
               if \<not> truthy machine then Inl Failed_to_import
               else
                 (case get_prop machine ''states'' of
                    Inl e \<Rightarrow> Inl Failed_to_import
                  | Inr states \<Rightarrow>
                      if \<not> truthy states then Inl Failed_to_import
                      else
                        (case get_prop session ''simulation'' of
                           Inl e \<Rightarrow> Inl Failed_to_import
                         | Inr simulation \<Rightarrow>
                             if truthy simulation then
                               (case get_prop simulation ''history'' of
                                  Inl e \<Rightarrow> Inl Failed_to_import
                                | Inr h \<Rightarrow> Inr (machine, h))
                             else Inr (machine, JArr [])))))"

section \<open>The facade (api.ts)\<close>

record StateMachineAPI =
  graph :: "StateMachineGraph option"
  simulator :: "SimulationEngine option"
  lastAnalysis :: "AnalysisResult option"
  lastParserError :: "ParserError option"

text \<open>A new facade: every field is \<open>null\<close>.\<close>

definition new_api :: StateMachineAPI where
  "new_api = \<lparr> graph = None, simulator = None, lastAnalysis = None, lastParserError = None \<rparr>"

text \<open>
  \<open>loadMachine\<close> (lines 22-39): the new facade, and what the call throws, if anything.
  Of the three calls in the \<open>try\<close> only \<open>parseMachine\<close> has a \<open>throw\<close>.
\<close>

definition loadMachine :: "StateMachineAPI \<Rightarrow> json \<Rightarrow> StateMachineAPI \<times> thrown option" where
  "loadMachine api definition =
     (case parseMachine definition of
        Inr g \<Rightarrow>
          (\<lparr> graph = Some g,
             simulator = Some \<lparr> sim_graph = g, sim_state = new_engine g \<rparr>,
             lastAnalysis = Some (analyzeGraph g),
             lastParserError = None \<rparr>, None)
      | Inl err \<Rightarrow>
          (\<lparr> graph = None, simulator = None, lastAnalysis = None,
             lastParserError =
               Some (case err of
                       Parser e \<Rightarrow> e
                     | TypeError \<Rightarrow>
                         \<lparr> code = INVALID_SCHEMA, details = Runtime_message, path = None \<rparr>) \<rparr>,
           Some err))"

text \<open>\<open>getDiagnostics\<close> (lines 85-98) and the helpers (lines 103-104).\<close>

definition getDiagnostics :: "StateMachineAPI \<Rightarrow> DiagnosticReport" where
  "getDiagnostics api =
     (case lastParserError api of
        Some err \<Rightarrow> formatParserError err
      | None \<Rightarrow>
          (case graph api of
             None \<Rightarrow>
               \<lparr> status = Status_error, issues = [], summary = Text ''No machine loaded'',
                 metrics = \<lparr> totalStates = 0, totalTransitions = 0,
                             cyclomaticComplexity = 0 \<rparr> \<rparr>
           | Some g \<Rightarrow>
               (case lastAnalysis api of
                  None \<Rightarrow>
                    \<lparr> status = Status_error, issues = [], summary = Text ''No machine loaded'',
                      metrics = \<lparr> totalStates = 0, totalTransitions = 0,
                                  cyclomaticComplexity = 0 \<rparr> \<rparr>
                | Some analysis \<Rightarrow> generateReport g analysis)))"

definition getGraph :: "StateMachineAPI \<Rightarrow> StateMachineGraph option" where
  "getGraph api = graph api"

definition getSimulationState :: "StateMachineAPI \<Rightarrow> SimulationState option" where
  "getSimulationState api = map_option sim_state (simulator api)"

section \<open>Invariants\<close>

text \<open>What every graph that \<open>parseMachine\<close> returns satisfies.\<close>

definition nodes_invariant :: "StateMachineGraph \<Rightarrow> bool" where
  "nodes_invariant g \<longleftrightarrow>
     distinct (map fst (nodes g))
     \<and> (\<forall>(ident, node) \<in> set (nodes g).
           truthy (node_type node) \<and> truthy (meta node)
         \<and> distinct (map fst (transitions node))
         \<and> (\<forall>(ev, t) \<in> set (transitions node). nodes_has g (target t) \<and> truthy (actions t)))"

text \<open>The invariant of the \<open>while\<close> loop of \<open>analyzeReachability\<close>.\<close>

definition bfs_invariant :: "StateMachineGraph \<Rightarrow> string list \<Rightarrow> string list \<Rightarrow> bool" where
  "bfs_invariant g r q \<longleftrightarrow>
     initial g \<in> set r \<and> set q \<subseteq> set r \<and> set r \<subseteq> reachable_ids g
     \<and> (\<forall>x \<in> set r - set q. successors g x \<subseteq> set r)"

text \<open>The invariant of the traversal of \<open>analyzeCycles\<close>.\<close>

definition dfs_invariant :: "StateMachineGraph \<Rightarrow> dfs_state \<Rightarrow> bool" where
  "dfs_invariant g st \<longleftrightarrow>
     set (dfs_path st) \<subseteq> reachable_ids g
     \<and> (\<forall>c \<in> set (dfs_cycles st). set c \<subseteq> reachable_ids g)"

text \<open>
  A value that \<open>JSON.stringify\<close> and \<open>JSON.parse\<close> give back as it is: it holds nowhere
  \<open>undefined\<close>, \<open>NaN\<close>, an infinity or the negative zero.
\<close>

fun json_stable :: "json \<Rightarrow> bool" where
  "json_stable JUndefined = False"
| "json_stable (JNum n) = (json_number n = JNum n)"
| "json_stable (JArr xs) = list_all json_stable xs"
| "json_stable (JObj kvs) = list_all (\<lambda>(k, v). json_stable v) kvs"
| "json_stable v = True"

text \<open>
  What \<open>graphToJSON\<close> returns for a graph whose \<open>actions\<close> fields are no objects
  (lemma \<open>graphToJSON_typed\<close>): there \<open>t.actions.length > 0\<close> is the test whether the
  array or the string is not empty, and nothing is thrown.
\<close>

fun not_empty :: "json \<Rightarrow> bool" where
  "not_empty (JArr xs) = (length xs > 0)"
| "not_empty (JStr s) = (length s > 0)"
| "not_empty v = False"

definition transition_json :: "InternalTransition \<Rightarrow> json" where
  "transition_json t =
     (if truthy (cond t) \<or> (truthy (actions t) \<and> not_empty (actions t))
      then JObj [(''target'', JStr (target t)), (''cond'', cond t), (''actions'', actions t)]
      else JStr (target t))"

definition state_json :: "InternalStateNode \<Rightarrow> json" where
  "state_json node =
     JObj ([(''type'', node_type node), (''meta'', meta node)]
           @ (if length (transitions node) > 0
              then [(''on'', JObj (fold (\<lambda>(ev, t) on. obj_set ev (transition_json t) on)
                                     (transitions node) []))]
              else []))"

definition graph_json :: "StateMachineGraph \<Rightarrow> json" where
  "graph_json g =
     JObj [(''initial'', JStr (initial g)),
           (''states'', JObj (fold (\<lambda>(ident, node) states. obj_set ident (state_json node) states)
                                (nodes g) []))]"

text \<open>
  The graph that \<open>parseMachine\<close> builds from \<open>graph_json g\<close>: the graph \<open>g\<close> with
  the fallback id, every transition as its shorthand or object form gives it back, and
  \<open>outgoing\<close> listing the entries of \<open>transitions\<close>.
\<close>

definition normal_transition :: "string \<Rightarrow> string \<Rightarrow> InternalTransition \<Rightarrow> InternalTransition" where
  "normal_transition ident ev t =
     (if truthy (cond t) \<or> (truthy (actions t) \<and> not_empty (actions t))
      then \<lparr> source = ident, target = target t, event = ev, cond = cond t, actions = actions t \<rparr>
      else \<lparr> source = ident, target = target t, event = ev, cond = JUndefined,
             actions = JArr [] \<rparr>)"

definition fresh_node :: "string \<Rightarrow> InternalStateNode \<Rightarrow> InternalStateNode" where
  "fresh_node ident node =
     \<lparr> node_id = ident, node_type = node_type node, transitions = [], outgoing = [],
       meta = meta node \<rparr>"

definition normal_node :: "string \<Rightarrow> InternalStateNode \<Rightarrow> InternalStateNode" where
  "normal_node ident node =
     \<lparr> node_id = ident, node_type = node_type node,
       transitions = map (\<lambda>(ev, t). (ev, normal_transition ident ev t)) (transitions node),
       outgoing = map (\<lambda>(ev, t). normal_transition ident ev t) (transitions node),
       meta = meta node \<rparr>"

definition normal_graph :: "StateMachineGraph \<Rightarrow> StateMachineGraph" where
  "normal_graph g =
     \<lparr> graph_id = JStr ''crypto-machine'', initial = initial g,
       nodes = map (\<lambda>(ident, node). (ident, normal_node ident node)) (nodes g) \<rparr>"

section \<open>Example definitions\<close>

text \<open>The definitions of the test suite (engine.test.ts) and of the specification.\<close>

definition machine_ABC :: json where
  "machine_ABC =
     JObj [(''initial'', JStr ''A''),
           (''states'', JObj [(''A'', JObj [(''on'', JObj [(''NEXT'', JStr ''B'')])]),
                              (''B'', JObj []),
                              (''C'', JObj [])])]"

definition machine_cycle :: json where
  "machine_cycle =
     JObj [(''initial'', JStr ''A''),
           (''states'', JObj [(''A'', JObj [(''on'', JObj [(''NEXT'', JStr ''B'')])]),
                              (''B'', JObj [(''on'', JObj [(''BACK'', JStr ''A'')])])])]"

definition machine_GO :: json where
  "machine_GO =
     JObj [(''initial'', JStr ''A''),
           (''states'', JObj [(''A'', JObj [(''on'', JObj [(''GO'', JStr ''B'')])]),
                              (''B'', JObj [])])]"

text \<open>A transition to a state that is not defined (engine.test.ts), and a state that is \<open>null\<close>.\<close>

definition machine_broken :: json where
  "machine_broken =
     JObj [(''initial'', JStr ''a''),
           (''states'', JObj [(''a'', JObj [(''on'', JObj [(''GO'', JStr ''b'')])])])]"

definition machine_null_state :: json where
  "machine_null_state =
     JObj [(''initial'', JStr ''A''), (''states'', JObj [(''A'', JNull)])]"

text \<open>A machine with a cycle among states that the initial state does not reach.\<close>

definition machine_orphan_cycle :: json where
  "machine_orphan_cycle =
     JObj [(''initial'', JStr ''A''),
           (''states'', JObj [(''A'', JObj [(''on'', JObj [(''NEXT'', JStr ''A'')])]),
                              (''C'', JObj [(''on'', JObj [(''X'', JStr ''D'')])]),
                              (''D'', JObj [(''on'', JObj [(''Y'', JStr ''C'')])])])]"

text \<open>A transition with actions and no guard.\<close>

definition machine_actions :: json where
  "machine_actions =
     JObj [(''initial'', JStr ''A''),
           (''states'',
              JObj [(''A'', JObj [(''on'',
                 JObj [(''GO'', JObj [(''target'', JStr ''A''),
                                      (''actions'', JArr [JStr ''log''])])])])])]"

text \<open>
  A transition whose \<open>actions\<close> is an object with a \<open>length\<close> that cannot be converted
  to a number.
\<close>

definition machine_length_object :: json where
  "machine_length_object =
     JObj [(''initial'', JStr ''A''),
           (''states'',
              JObj [(''A'', JObj [(''on'',
                 JObj [(''GO'', JObj [(''target'', JStr ''A''),
                                      (''actions'',
                                         JObj [(''length'',
                                                  JObj [(''toString'', JNum (Whole 1))])])])])])])]"

text \<open>An event named \<open>__proto__\<close>, and a state named \<open>__proto__\<close>.\<close>

definition machine_proto_event :: json where
  "machine_proto_event =
     JObj [(''initial'', JStr ''A''),
           (''states'', JObj [(''A'', JObj [(''on'', JObj [(''__proto__'', JStr ''A'')])])])]"

definition machine_proto_state :: json where
  "machine_proto_state =
     JObj [(''initial'', JStr ''__proto__''),
           (''states'', JObj [(''__proto__'', JObj [])])]"

text \<open>The graphs built from them, as \<open>parseMachine\<close> returns them (lemmas \<open>parse_machine_\<close>).\<close>

definition graph_ABC :: StateMachineGraph where
  "graph_ABC =
     \<lparr> graph_id = JStr ''crypto-machine'', initial = ''A'',
       nodes =
         [(''A'', \<lparr> node_id = ''A'', node_type = JStr ''default'',
                   transitions = [(''NEXT'', \<lparr> source = ''A'', target = ''B'', event = ''NEXT'',
                                              cond = JUndefined, actions = JArr [] \<rparr>)],
                   outgoing = [\<lparr> source = ''A'', target = ''B'', event = ''NEXT'',
                                 cond = JUndefined, actions = JArr [] \<rparr>],
                   meta = JObj [] \<rparr>),
          (''B'', \<lparr> node_id = ''B'', node_type = JStr ''default'', transitions = [],
                   outgoing = [], meta = JObj [] \<rparr>),
          (''C'', \<lparr> node_id = ''C'', node_type = JStr ''default'', transitions = [],
                   outgoing = [], meta = JObj [] \<rparr>)] \<rparr>"

definition graph_cycle :: StateMachineGraph where
  "graph_cycle =
     \<lparr> graph_id = JStr ''crypto-machine'', initial = ''A'',
       nodes =
         [(''A'', \<lparr> node_id = ''A'', node_type = JStr ''default'',
                   transitions = [(''NEXT'', \<lparr> source = ''A'', target = ''B'', event = ''NEXT'',
                                              cond = JUndefined, actions = JArr [] \<rparr>)],
                   outgoing = [\<lparr> source = ''A'', target = ''B'', event = ''NEXT'',
                                 cond = JUndefined, actions = JArr [] \<rparr>],
                   meta = JObj [] \<rparr>),
          (''B'', \<lparr> node_id = ''B'', node_type = JStr ''default'',
                   transitions = [(''BACK'', \<lparr> source = ''B'', target = ''A'', event = ''BACK'',
                                              cond = JUndefined, actions = JArr [] \<rparr>)],
                   outgoing = [\<lparr> source = ''B'', target = ''A'', event = ''BACK'',
                                 cond = JUndefined, actions = JArr [] \<rparr>],
                   meta = JObj [] \<rparr>)] \<rparr>"

definition graph_GO :: StateMachineGraph where
  "graph_GO =
     \<lparr> graph_id = JStr ''crypto-machine'', initial = ''A'',
       nodes =
         [(''A'', \<lparr> node_id = ''A'', node_type = JStr ''default'',
                   transitions = [(''GO'', \<lparr> source = ''A'', target = ''B'', event = ''GO'',
                                            cond = JUndefined, actions = JArr [] \<rparr>)],
                   outgoing = [\<lparr> source = ''A'', target = ''B'', event = ''GO'',
                                 cond = JUndefined, actions = JArr [] \<rparr>],
                   meta = JObj [] \<rparr>),
          (''B'', \<lparr> node_id = ''B'', node_type = JStr ''default'', transitions = [],
                   outgoing = [], meta = JObj [] \<rparr>)] \<rparr>"

definition graph_orphan_cycle :: StateMachineGraph where
  "graph_orphan_cycle =
     \<lparr> graph_id = JStr ''crypto-machine'', initial = ''A'',
       nodes =
         [(''A'', \<lparr> node_id = ''A'', node_type = JStr ''default'',
                   transitions = [(''NEXT'', \<lparr> source = ''A'', target = ''A'', event = ''NEXT'',
                                              cond = JUndefined, actions = JArr [] \<rparr>)],
                   outgoing = [\<lparr> source = ''A'', target = ''A'', event = ''NEXT'',
                                 cond = JUndefined, actions = JArr [] \<rparr>],
                   meta = JObj [] \<rparr>),
          (''C'', \<lparr> node_id = ''C'', node_type = JStr ''default'',
                   transitions = [(''X'', \<lparr> source = ''C'', target = ''D'', event = ''X'',
                                           cond = JUndefined, actions = JArr [] \<rparr>)],
                   outgoing = [\<lparr> source = ''C'', target = ''D'', event = ''X'',
                                 cond = JUndefined, actions = JArr [] \<rparr>],
                   meta = JObj [] \<rparr>),
          (''D'', \<lparr> node_id = ''D'', node_type = JStr ''default'',
                   transitions = [(''Y'', \<lparr> source = ''D'', target = ''C'', event = ''Y'',
                                           cond = JUndefined, actions = JArr [] \<rparr>)],
                   outgoing = [\<lparr> source = ''D'', target = ''C'', event = ''Y'',
                                 cond = JUndefined, actions = JArr [] \<rparr>],
                   meta = JObj [] \<rparr>)] \<rparr>"

definition graph_actions :: StateMachineGraph where
  "graph_actions =
     \<lparr> graph_id = JStr ''crypto-machine'', initial = ''A'',
       nodes =
         [(''A'', \<lparr> node_id = ''A'', node_type = JStr ''default'',
                   transitions = [(''GO'', \<lparr> source = ''A'', target = ''A'', event = ''GO'',
                                            cond = JUndefined, actions = JArr [JStr ''log''] \<rparr>)],
                   outgoing = [\<lparr> source = ''A'', target = ''A'', event = ''GO'',
                                 cond = JUndefined, actions = JArr [JStr ''log''] \<rparr>],
                   meta = JObj [] \<rparr>)] \<rparr>"

definition graph_length_object :: StateMachineGraph where
  "graph_length_object =
     \<lparr> graph_id = JStr ''crypto-machine'', initial = ''A'',
       nodes =
         [(''A'', \<lparr> node_id = ''A'', node_type = JStr ''default'',
                   transitions = [(''GO'', \<lparr> source = ''A'', target = ''A'', event = ''GO'',
                                            cond = JUndefined,
                                            actions = JObj [(''length'',
                                                       JObj [(''toString'', JNum (Whole 1))])] \<rparr>)],
                   outgoing = [\<lparr> source = ''A'', target = ''A'', event = ''GO'',
                                 cond = JUndefined,
                                 actions = JObj [(''length'',
                                            JObj [(''toString'', JNum (Whole 1))])] \<rparr>],
                   meta = JObj [] \<rparr>)] \<rparr>"

definition graph_proto_event :: StateMachineGraph where
  "graph_proto_event =
     \<lparr> graph_id = JStr ''crypto-machine'', initial = ''A'',
       nodes =
         [(''A'', \<lparr> node_id = ''A'', node_type = JStr ''default'',
                   transitions = [(''__proto__'', \<lparr> source = ''A'', target = ''A'',
                                                   event = ''__proto__'', cond = JUndefined,
                                                   actions = JArr [] \<rparr>)],
                   outgoing = [\<lparr> source = ''A'', target = ''A'', event = ''__proto__'',
                                 cond = JUndefined, actions = JArr [] \<rparr>],
                   meta = JObj [] \<rparr>)] \<rparr>"

text \<open>What \<open>parseMachine\<close> builds from the serialization of \<open>graph_proto_event\<close>.\<close>

definition graph_no_event :: StateMachineGraph where
  "graph_no_event =
     \<lparr> graph_id = JStr ''crypto-machine'', initial = ''A'',
       nodes =
         [(''A'', \<lparr> node_id = ''A'', node_type = JStr ''default'', transitions = [],
                   outgoing = [], meta = JObj [] \<rparr>)] \<rparr>"

definition graph_proto_state :: StateMachineGraph where
  "graph_proto_state =
     \<lparr> graph_id = JStr ''crypto-machine'', initial = ''__proto__'',
       nodes =
         [(''__proto__'', \<lparr> node_id = ''__proto__'', node_type = JStr ''default'',
                           transitions = [], outgoing = [], meta = JObj [] \<rparr>)] \<rparr>"

section \<open>Evaluating the examples\<close>

lemmas parse_unfold =
  parseMachine_def normalizeTransition_def nodes_has_def nodes_get_def js_or_def Let_def
  unknown_target_def

lemma parse_machine_ABC: "parseMachine machine_ABC = Inr graph_ABC"
  by (simp add: parse_unfold machine_ABC_def graph_ABC_def)

lemma parse_machine_cycle: "parseMachine machine_cycle = Inr graph_cycle"
  by (simp add: parse_unfold machine_cycle_def graph_cycle_def)

lemma parse_machine_GO: "parseMachine machine_GO = Inr graph_GO"
  by (simp add: parse_unfold machine_GO_def graph_GO_def)

lemma parse_machine_actions: "parseMachine machine_actions = Inr graph_actions"
  by (simp add: parse_unfold machine_actions_def graph_actions_def)

lemma parse_machine_length_object:
  "parseMachine machine_length_object = Inr graph_length_object"
  by (simp add: parse_unfold machine_length_object_def graph_length_object_def)

lemma parse_machine_proto_event: "parseMachine machine_proto_event = Inr graph_proto_event"
  by (simp add: parse_unfold machine_proto_event_def graph_proto_event_def)

lemma parse_machine_proto_state: "parseMachine machine_proto_state = Inr graph_proto_state"
  by (simp add: parse_unfold machine_proto_state_def graph_proto_state_def)

lemma parse_machine_orphan_cycle: "parseMachine machine_orphan_cycle = Inr graph_orphan_cycle"
  by (simp add: parse_unfold machine_orphan_cycle_def graph_orphan_cycle_def)

section \<open>Claims about the simulation engine\<close>

lemma getAvailableEvents_keys:
  "ev \<notin> set (getAvailableEvents g st) \<longleftrightarrow>
     (case Option.bind (activeStateId st) (nodes_get g) of None \<Rightarrow> True
      | Some node \<Rightarrow> map_of (transitions node) ev = None)"
  by (auto simp: getAvailableEvents_def map_of_eq_None_iff split: option.splits)

lemma nodes_get_None_iff: "nodes_get g k = None \<longleftrightarrow> \<not> nodes_has g k"
  by (simp add: nodes_get_def nodes_has_def map_of_eq_None_iff)

text \<open>
  Claim C2. For every graph and every state of an engine, \<open>send\<close> with an event that has
  no entry in the active node's transition table (it is not among the events
  \<open>getAvailableEvents\<close> lists) leaves \<open>activeStateId\<close>, \<open>steps\<close> and \<open>history\<close> as they
  were and appends exactly one line to the log, \<open>Event '<event>' -> Failed: <reason>\<close>,
  the reason being \<open>INVALID_EVENT\<close>, or \<open>NO_TRANSITION\<close> when the active id is no node
  of the graph. \<open>send\<close> has no error branch: it never raises.
\<close>

theorem send_unhandled_event:
  assumes "ev \<notin> set (getAvailableEvents g st)"
  shows "activeStateId (send g st ev) = activeStateId st
       \<and> steps (send g st ev) = steps st
       \<and> history (send g st ev) = history st
       \<and> log (send g st ev)
           = log st @ [''Event '' @ [CHR 0x27] @ ev @ [CHR 0x27] @ '' -> Failed: ''
                        @ reason_name (if (case activeStateId st of None \<Rightarrow> False
                                           | Some active \<Rightarrow> nodes_has g active)
                                       then INVALID_EVENT else NO_TRANSITION)]"
proof (cases "Option.bind (activeStateId st) (nodes_get g)")
  case None
  then have "transition g (activeStateId st) ev = Failure NO_TRANSITION"
    by (simp add: transition_def)
  moreover from None have "\<not> (case activeStateId st of None \<Rightarrow> False
                                | Some active \<Rightarrow> nodes_has g active)"
    by (cases "activeStateId st") (simp_all add: nodes_get_None_iff)
  ultimately show ?thesis by (simp add: send_def)
next
  case (Some node)
  with assms have "map_of (transitions node) ev = None"
    by (simp add: getAvailableEvents_keys)
  with Some have "transition g (activeStateId st) ev = Failure INVALID_EVENT"
    by (simp add: transition_def)
  moreover from Some have "case activeStateId st of None \<Rightarrow> False
                           | Some active \<Rightarrow> nodes_has g active"
    by (cases "activeStateId st") (use nodes_get_None_iff in force)+
  ultimately show ?thesis by (simp add: send_def)
qed

theorem send_unhandled_event_witness:
  "''UNKNOWN_EVENT'' \<notin> set (getAvailableEvents graph_GO (new_engine graph_GO))
   \<and> send graph_GO (new_engine graph_GO) ''UNKNOWN_EVENT''
       = \<lparr> activeStateId = Some ''A'', steps = Whole 0, history = [''A''],
           log = [''Initialized at A'',
                  ''Event '' @ [CHR 0x27] @ ''UNKNOWN_EVENT'' @ [CHR 0x27] @ '' -> Failed: INVALID_EVENT''] \<rparr>"
proof
  show h: "''UNKNOWN_EVENT'' \<notin> set (getAvailableEvents graph_GO (new_engine graph_GO))"
    by (simp add: getAvailableEvents_def new_engine_def nodes_get_def graph_GO_def)
  have n: "case activeStateId (new_engine graph_GO) of None \<Rightarrow> False
           | Some active \<Rightarrow> nodes_has graph_GO active"
    by (simp add: nodes_has_def new_engine_def graph_GO_def)
  from send_unhandled_event[OF h] n
  show "send graph_GO (new_engine graph_GO) ''UNKNOWN_EVENT''
       = \<lparr> activeStateId = Some ''A'', steps = Whole 0, history = [''A''],
           log = [''Initialized at A'',
                  ''Event '' @ [CHR 0x27] @ ''UNKNOWN_EVENT'' @ [CHR 0x27] @ '' -> Failed: INVALID_EVENT''] \<rparr>"
    by (simp add: new_engine_def graph_GO_def)
qed

lemma slice_end_mono:
  "\<not> negative x \<Longrightarrow> m \<le> n \<Longrightarrow> slice_end (plus_one x) m \<le> slice_end (plus_one x) n"
  by (cases x) (auto simp: clamp_end_def)

lemma engine_state_log:
  "engine_state g st \<Longrightarrow> length (history st) \<le> length (log st)"
proof (induction rule: engine_state.induct)
  case (constructed g)
  show ?case by (simp add: new_engine_def)
next
  case (after_send g st ev)
  then show ?case by (cases "transition g (activeStateId st) ev") (simp_all add: send_def)
next
  case (after_reset g st)
  show ?case by (simp add: reset_def)
next
  case (after_timeTravel g st x)
  show ?case
  proof (cases "negative x \<or> at_least x (length (history st))")
    case True
    with after_timeTravel.IH show ?thesis by (simp add: timeTravel_def)
  next
    case False
    then have "\<not> negative x" by simp
    from slice_end_mono[OF this after_timeTravel.IH] after_timeTravel.IH
    have "min (length (history st)) (slice_end (plus_one x) (length (history st)))
          \<le> Suc (min (length (log st)) (slice_end (plus_one x) (length (log st))))"
      by arith
    with False show ?thesis
      by (simp add: timeTravel_def slice_to_def)
  qed
qed

lemma timeTravel_whole:
  assumes "k < length (history st)"
  shows "timeTravel st (Whole (int k))
         = \<lparr> activeStateId = Some (history st ! k), steps = Whole (int k),
             history = take (k + 1) (history st),
             log = take (k + 1) (log st) @ [''Time traveled to step '' @ show_nat k] \<rparr>"
proof -
  have "min (nat (int k + 1)) n = min (k + 1) n" for n
    by (simp add: nat_add_distrib)
  then have "slice_end (Whole (int k + 1)) n = min (k + 1) n" for n
    by (simp add: clamp_end_def)
  moreover have "take (min (k + 1) (length xs)) xs = take (k + 1) xs" for xs :: "string list"
    by (simp add: min_def)
  ultimately show ?thesis using assms by (simp add: timeTravel_def slice_to_def)
qed

text \<open>
  Claim C3. \<open>timeTravel(-1)\<close> and \<open>timeTravel(history.length)\<close> leave the state as it
  was. For every index \<open>k\<close> with \<open>0 \<le> k < history.length\<close>, \<open>timeTravel(k)\<close> makes
  \<open>history[k]\<close> the active state, sets \<open>steps\<close> to \<open>k\<close>, keeps the first \<open>k + 1\<close> entries
  of the history, keeps the first \<open>k + 1\<close> entries of the log (which has that many in
  every state an engine can be in) and appends the line \<open>Time traveled to step k\<close>.
\<close>

theorem timeTravel_effect:
  "timeTravel st (Whole (- 1)) = st
   \<and> timeTravel st (Whole (int (length (history st)))) = st
   \<and> (\<forall>k < length (history st).
        activeStateId (timeTravel st (Whole (int k))) = Some (history st ! k)
      \<and> steps (timeTravel st (Whole (int k))) = Whole (int k)
      \<and> history (timeTravel st (Whole (int k))) = take (k + 1) (history st)
      \<and> length (history (timeTravel st (Whole (int k)))) = k + 1
      \<and> log (timeTravel st (Whole (int k)))
          = take (k + 1) (log st) @ [''Time traveled to step '' @ show_nat k]
      \<and> (engine_state g st \<longrightarrow> length (take (k + 1) (log st)) = k + 1))"
proof (intro conjI allI impI)
  show "timeTravel st (Whole (- 1)) = st" by (simp add: timeTravel_def)
  show "timeTravel st (Whole (int (length (history st)))) = st" by (simp add: timeTravel_def)
next
  fix k assume k: "k < length (history st)"
  then show "activeStateId (timeTravel st (Whole (int k))) = Some (history st ! k)"
    and "steps (timeTravel st (Whole (int k))) = Whole (int k)"
    and "history (timeTravel st (Whole (int k))) = take (k + 1) (history st)"
    and "length (history (timeTravel st (Whole (int k)))) = k + 1"
    and "log (timeTravel st (Whole (int k)))
          = take (k + 1) (log st) @ [''Time traveled to step '' @ show_nat k]"
    by (simp_all add: timeTravel_whole)
  assume "engine_state g st"
  from engine_state_log[OF this] k show "length (take (k + 1) (log st)) = k + 1"
    by simp
qed

theorem timeTravel_effect_witness:
  "engine_state graph_GO (send graph_GO (new_engine graph_GO) ''GO'')
   \<and> history (send graph_GO (new_engine graph_GO) ''GO'') = [''A'', ''B'']
   \<and> timeTravel (send graph_GO (new_engine graph_GO) ''GO'') (Whole (- 1))
       = send graph_GO (new_engine graph_GO) ''GO''
   \<and> timeTravel (send graph_GO (new_engine graph_GO) ''GO'') (Whole 2)
       = send graph_GO (new_engine graph_GO) ''GO''
   \<and> timeTravel (send graph_GO (new_engine graph_GO) ''GO'') (Whole 0)
       = \<lparr> activeStateId = Some ''A'', steps = Whole 0, history = [''A''],
           log = [''Initialized at A'', ''Time traveled to step 0''] \<rparr>"
proof -
  let ?s = "send graph_GO (new_engine graph_GO) ''GO''"
  have e: "engine_state graph_GO ?s"
    by (intro engine_state.intros)
  have s: "?s = \<lparr> activeStateId = Some ''B'', steps = Whole 1, history = [''A'', ''B''],
                  log = [''Initialized at A'',
                         ''Event '' @ [CHR 0x27] @ ''GO'' @ [CHR 0x27] @ '' -> Transitioned to ''
                           @ [CHR 0x27] @ ''B'' @ [CHR 0x27]] \<rparr>"
    by (simp add: send_def transition_def nodes_get_def new_engine_def graph_GO_def)
  have h: "history ?s = [''A'', ''B'']" by (simp add: s)
  have z: "show_nat 0 = ''0''" by (simp add: show_nat.simps)
  have l: "0 < length (history ?s)" and l2: "int (length (history ?s)) = 2" by (simp_all add: h)
  from timeTravel_effect[of ?s graph_GO] l
  have "timeTravel ?s (Whole (- 1)) = ?s"
    and "timeTravel ?s (Whole (int (length (history ?s)))) = ?s"
    and "activeStateId (timeTravel ?s (Whole (int 0))) = Some (history ?s ! 0)"
    and "steps (timeTravel ?s (Whole (int 0))) = Whole (int 0)"
    and "history (timeTravel ?s (Whole (int 0))) = take (0 + 1) (history ?s)"
    and "log (timeTravel ?s (Whole (int 0)))
           = take (0 + 1) (log ?s) @ [''Time traveled to step '' @ show_nat 0]"
    by blast+
  then have "timeTravel ?s (Whole (- 1)) = ?s" and "timeTravel ?s (Whole 2) = ?s"
    and "timeTravel ?s (Whole 0) = \<lparr> activeStateId = Some ''A'', steps = Whole 0, history = [''A''],
           log = [''Initialized at A'', ''Time traveled to step 0''] \<rparr>"
    unfolding l2 by (simp_all add: s z)
  with e h show ?thesis by blast
qed

text \<open>
  Where the invariant \<open>history.length = steps + 1\<close> does hold: of the state the
  constructor makes and of the state \<open>reset\<close> makes; \<open>send\<close> (the event accepted or not)
  preserves it, and so does \<open>timeTravel\<close> at every whole number, in range or not, and at
  every number that its guard sends back.
\<close>

lemma history_invariant_whole_index:
  "history_invariant (new_engine g)
   \<and> (history_invariant st \<longrightarrow> history_invariant (send g st ev))
   \<and> history_invariant (reset g)
   \<and> (history_invariant st \<longrightarrow> history_invariant (timeTravel st (Whole k)))
   \<and> (history_invariant st \<and> (negative x \<or> at_least x (length (history st)))
        \<longrightarrow> history_invariant (timeTravel st x))"
proof (intro conjI impI)
  show "history_invariant (new_engine g)"
    by (simp add: history_invariant_def new_engine_def)
  show "history_invariant (reset g)"
    by (simp add: history_invariant_def reset_def)
  show "history_invariant (timeTravel st x)"
    if "history_invariant st \<and> (negative x \<or> at_least x (length (history st)))"
    using that by (auto simp: timeTravel_def)
next
  assume inv: "history_invariant st"
  have "Whole (1 + n) = plus_one (plus_one x)" if "Whole n = plus_one x" for n x
    using that[symmetric] by simp
  with inv show "history_invariant (send g st ev)"
    by (cases "transition g (activeStateId st) ev")
       (simp_all add: send_def history_invariant_def)
  show "history_invariant (timeTravel st (Whole k))"
  proof (cases "0 \<le> k \<and> k < int (length (history st))")
    case True
    then have "nat k < length (history st)" and "int (nat k) = k" by linarith+
    from timeTravel_whole[OF this(1)] this show ?thesis
      by (simp add: history_invariant_def)
  next
    case False
    with inv show ?thesis by (auto simp: timeTravel_def)
  qed
qed

text \<open>
  Claim C4 says that \<open>history.length = steps + 1\<close> holds after construction and is
  preserved by every operation, \<open>timeTravel\<close> in range and out of range included. The
  guard of \<open>timeTravel\<close> tests the bounds only: \<open>timeTravel(0.5)\<close> on a new engine passes
  it, sets \<open>steps\<close> to \<open>0.5\<close> and \<open>activeStateId\<close> to \<open>undefined\<close> and keeps one history
  entry, and \<open>timeTravel(NaN)\<close> sets \<open>steps\<close> to \<open>NaN\<close> and empties the history; in both
  states \<open>history.length\<close> is not \<open>steps + 1\<close>, and a later \<open>send\<close> does not restore it.
\<close>

theorem timeTravel_not_whole:
  "history_invariant (new_engine graph_GO)
   \<and> timeTravel (new_engine graph_GO) (Half 0)
       = \<lparr> activeStateId = None, steps = Half 0, history = [''A''],
           log = [''Initialized at A'', ''Time traveled to step 0.5''] \<rparr>
   \<and> \<not> history_invariant (timeTravel (new_engine graph_GO) (Half 0))
   \<and> timeTravel (new_engine graph_GO) NaN
       = \<lparr> activeStateId = None, steps = NaN, history = [],
           log = [''Time traveled to step NaN''] \<rparr>
   \<and> \<not> history_invariant (timeTravel (new_engine graph_GO) NaN)
   \<and> \<not> history_invariant (send graph_GO (timeTravel (new_engine graph_GO) (Half 0)) ''GO'')
   \<and> engine_state graph_GO (timeTravel (new_engine graph_GO) (Half 0))"
proof -
  have z: "show_nat 0 = ''0''" by (simp add: show_nat.simps)
  have h: "timeTravel (new_engine graph_GO) (Half 0)
       = \<lparr> activeStateId = None, steps = Half 0, history = [''A''],
           log = [''Initialized at A'', ''Time traveled to step 0.5''] \<rparr>"
    by (simp add: timeTravel_def new_engine_def slice_to_def clamp_end_def graph_GO_def z)
  have n: "timeTravel (new_engine graph_GO) NaN
       = \<lparr> activeStateId = None, steps = NaN, history = [],
           log = [''Time traveled to step NaN''] \<rparr>"
    by (simp add: timeTravel_def new_engine_def slice_to_def graph_GO_def)
  have e: "engine_state graph_GO (timeTravel (new_engine graph_GO) (Half 0))"
    by (intro engine_state.intros)
  have i: "history_invariant (new_engine graph_GO)"
    by (simp add: history_invariant_def new_engine_def)
  have s: "\<not> history_invariant (send graph_GO (timeTravel (new_engine graph_GO) (Half 0)) ''GO'')"
    unfolding h by (simp add: send_def transition_def history_invariant_def)
  from i e s show ?thesis unfolding h n by (simp add: history_invariant_def)
qed

theorem timeTravel_not_whole_witness:
  "\<not> history_invariant (timeTravel (new_engine graph_GO) (Half 0))
   \<and> engine_state graph_GO (timeTravel (new_engine graph_GO) (Half 0))"
  using timeTravel_not_whole by blast

section \<open>Facts about the parser\<close>

lemma create_nodes_fields:
  "create_nodes es g = Inr g' \<Longrightarrow> initial g' = initial g \<and> graph_id g' = graph_id g"
  by (induction es g rule: create_nodes.induct) (auto split: sum.splits)

lemma create_nodes_keys:
  "create_nodes es g = Inr g' \<Longrightarrow>
     set (map fst (nodes g')) = set (map fst (nodes g)) \<union> fst ` set es"
  by (induction es g arbitrary: g' rule: create_nodes.induct)
     (auto split: sum.splits simp: dom_update)

lemma create_nodes_error: "create_nodes es g = Inl e \<Longrightarrow> e = TypeError"
proof (induction es g rule: create_nodes.induct)
  case (1 graph)
  then show ?case by simp
next
  case (2 ident d rest graph)
  then show ?case
    by (cases d) (auto split: sum.splits)
qed

lemma normalizeTransition_error: "normalizeTransition td ident ev = Inl e \<Longrightarrow> e = TypeError"
  by (cases td) (auto simp: normalizeTransition_def split: sum.splits)

lemma build_edges_keys:
  "build_edges ident es g = Inr g' \<Longrightarrow>
     map fst (nodes g') = map fst (nodes g) \<and> initial g' = initial g \<and> graph_id g' = graph_id g"
proof (induction es arbitrary: g)
  case Nil
  then show ?case by simp
next
  case (Cons a es)
  obtain ev td where a: "a = (ev, td)" by (cases a)
  from Cons.prems obtain tr tg node where
    tr: "normalizeTransition td ident ev = Inr tr" "target tr = JStr tg"
    and has: "nodes_has g tg" and node: "nodes_get g ident = Some node"
    and rest: "build_edges ident es
         (g \<lparr> nodes := AList.update ident
                 (node \<lparr> transitions := AList.update ev
                            \<lparr> source = source tr, target = tg, event = event tr,
                              cond = cond tr, actions = actions tr \<rparr> (transitions node),
                         outgoing := outgoing node @
                            [\<lparr> source = source tr, target = tg, event = event tr,
                               cond = cond tr, actions = actions tr \<rparr>] \<rparr>)
                 (nodes g) \<rparr>) = Inr g'"
    unfolding a by (auto simp: Let_def split: sum.splits json.splits if_splits option.splits)
  from node have "ident \<in> set (map fst (nodes g))"
    unfolding nodes_get_def by (auto dest: map_of_SomeD intro: rev_image_eqI)
  with Cons.IH[OF rest] show ?case by (simp add: update_keys)
qed

lemma build_edges_error:
  "build_edges ident es g = Inl e \<Longrightarrow>
     e = TypeError \<or>
     (\<exists>ev td tr. (ev, td) \<in> set es \<and> normalizeTransition td ident ev = Inr tr
        \<and> (\<forall>s \<in> set (map fst (nodes g)). target tr \<noteq> JStr s)
        \<and> e = unknown_target ident (target tr) ev)"
proof (induction es arbitrary: g)
  case Nil
  then show ?case by simp
next
  case (Cons a es)
  obtain ev td where a: "a = (ev, td)" by (cases a)
  show ?case
  proof (cases "normalizeTransition td ident ev")
    case (Inl x)
    with Cons.prems a have "e = TypeError" by (auto dest: normalizeTransition_error)
    then show ?thesis by simp
  next
    case (Inr tr)
    show ?thesis
    proof (cases "\<exists>tg. target tr = JStr tg \<and> nodes_has g tg")
      case False
      with Cons.prems a Inr have e: "e = unknown_target ident (target tr) ev"
        by (auto split: json.splits if_splits)
      from False have "\<forall>s \<in> set (map fst (nodes g)). target tr \<noteq> JStr s"
        by (auto simp: nodes_has_def)
      with e Inr a show ?thesis by auto
    next
      case True
      then obtain tg where tg: "target tr = JStr tg" "nodes_has g tg" by blast
      show ?thesis
      proof (cases "nodes_get g ident")
        case None
        with Cons.prems a Inr tg have "e = TypeError" by simp
        then show ?thesis by simp
      next
        case (Some node)
        let ?g = "g \<lparr> nodes := AList.update ident
                 (node \<lparr> transitions := AList.update ev
                            \<lparr> source = source tr, target = tg, event = event tr,
                              cond = cond tr, actions = actions tr \<rparr> (transitions node),
                         outgoing := outgoing node @
                            [\<lparr> source = source tr, target = tg, event = event tr,
                               cond = cond tr, actions = actions tr \<rparr>] \<rparr>)
                 (nodes g) \<rparr>"
        from Cons.prems a Inr tg Some have rest: "build_edges ident es ?g = Inl e"
          by (simp add: Let_def)
        from Some have "ident \<in> set (map fst (nodes g))"
          unfolding nodes_get_def by (auto dest: map_of_SomeD intro: rev_image_eqI)
        then have keys: "map fst (nodes ?g) = map fst (nodes g)" by (simp add: update_keys)
        from Cons.IH[OF rest] show ?thesis unfolding keys by auto
      qed
    qed
  qed
qed

lemma link_states_keys:
  "link_states es g = Inr g' \<Longrightarrow>
     map fst (nodes g') = map fst (nodes g) \<and> initial g' = initial g \<and> graph_id g' = graph_id g"
proof (induction es arbitrary: g)
  case Nil
  then show ?case by simp
next
  case (Cons a es)
  obtain ident d where a: "a = (ident, d)" by (cases a)
  from Cons.prems obtain on where on: "get_prop d ''on'' = Inr on"
    unfolding a by (auto split: sum.splits)
  show ?case
  proof (cases "truthy on")
    case False
    with Cons.prems a on have "link_states es g = Inr g'" by simp
    from Cons.IH[OF this] show ?thesis .
  next
    case True
    with Cons.prems a on obtain g1 where
      g1: "build_edges ident (object_entries on) g = Inr g1" and rest: "link_states es g1 = Inr g'"
      by (auto split: sum.splits)
    from Cons.IH[OF rest] build_edges_keys[OF g1] show ?thesis by simp
  qed
qed

lemma link_states_error:
  "link_states es g = Inl e \<Longrightarrow>
     e = TypeError \<or>
     (\<exists>ident d on ev td tr. (ident, d) \<in> set es \<and> get_prop d ''on'' = Inr on
        \<and> (ev, td) \<in> set (object_entries on)
        \<and> normalizeTransition td ident ev = Inr tr
        \<and> (\<forall>s \<in> set (map fst (nodes g)). target tr \<noteq> JStr s)
        \<and> e = unknown_target ident (target tr) ev)"
proof (induction es arbitrary: g)
  case Nil
  then show ?case by simp
next
  case (Cons a es)
  obtain ident d where a: "a = (ident, d)" by (cases a)
  show ?case
  proof (cases "get_prop d ''on''")
    case (Inl x)
    with Cons.prems a have "e = TypeError" by (cases d) auto
    then show ?thesis by simp
  next
    case (Inr on)
    show ?thesis
    proof (cases "truthy on")
      case False
      with Cons.prems a Inr have "link_states es g = Inl e" by simp
      from Cons.IH[OF this] show ?thesis unfolding list.set(2) by blast
    next
      case True
      show ?thesis
      proof (cases "build_edges ident (object_entries on) g")
        case (Inl x)
        with Cons.prems a Inr True have "build_edges ident (object_entries on) g = Inl e" by simp
        from build_edges_error[OF this] \<open>get_prop d ''on'' = Inr on\<close> a show ?thesis
          unfolding list.set(2) by blast
      next
        case (Inr g1)
        with Cons.prems a \<open>get_prop d ''on'' = Inr on\<close> True have "link_states es g1 = Inl e" by simp
        from Cons.IH[OF this] build_edges_keys[OF Inr] show ?thesis
          unfolding list.set(2) by (elim disjE exE conjE) (simp, simp, blast)
      qed
    qed
  qed
qed

subsection \<open>What every parsed graph satisfies\<close>

lemma set_update_subset: "set (AList.update k v al) \<subseteq> insert (k, v) (set al)"
  by (induction al) auto

lemma truthy_js_or: "truthy b \<Longrightarrow> truthy (js_or a b)"
  by (simp add: js_or_def)

lemma nodes_has_update:
  "nodes_has (g \<lparr> nodes := AList.update k v (nodes g) \<rparr>) x \<longleftrightarrow> x = k \<or> nodes_has g x"
  by (auto simp: nodes_has_def dom_update)

lemma nodes_invariant_update:
  assumes inv: "nodes_invariant g"
    and v: "truthy (node_type v)" "truthy (meta v)" "distinct (map fst (transitions v))"
      "\<forall>(ev, t) \<in> set (transitions v). (target t = k \<or> nodes_has g (target t)) \<and> truthy (actions t)"
  shows "nodes_invariant (g \<lparr> nodes := AList.update k v (nodes g) \<rparr>)"
  unfolding nodes_invariant_def
proof (intro conjI ballI)
  let ?g = "g \<lparr> nodes := AList.update k v (nodes g) \<rparr>"
  show "distinct (map fst (nodes ?g))"
    using inv by (simp add: nodes_invariant_def distinct_update)
  fix p assume "p \<in> set (nodes ?g)"
  then have p: "p = (k, v) \<or> p \<in> set (nodes g)"
    using set_update_subset[of k v "nodes g"] by auto
  obtain ident node where pn: "p = (ident, node)" by (cases p)
  have "truthy (node_type node) \<and> truthy (meta node)
         \<and> distinct (map fst (transitions node))
         \<and> (\<forall>(ev, t) \<in> set (transitions node). nodes_has ?g (target t) \<and> truthy (actions t))"
  proof (cases "p = (k, v)")
    case True
    with pn v show ?thesis by (auto simp: nodes_has_update)
  next
    case False
    with p pn have "(ident, node) \<in> set (nodes g)" by blast
    with inv show ?thesis unfolding nodes_invariant_def by (fastforce simp: nodes_has_update)
  qed
  then show "case p of (ident, node) \<Rightarrow>
           truthy (node_type node) \<and> truthy (meta node)
         \<and> distinct (map fst (transitions node))
         \<and> (\<forall>(ev, t) \<in> set (transitions node). nodes_has ?g (target t) \<and> truthy (actions t))"
    by (simp add: pn)
qed

lemma create_nodes_invariant:
  "create_nodes es g = Inr g' \<Longrightarrow> nodes_invariant g \<Longrightarrow> nodes_invariant g'"
proof (induction es g arbitrary: g' rule: create_nodes.induct)
  case (1 graph)
  then show ?case by simp
next
  case (2 ident d rest graph)
  from "2.prems"(1) obtain ty m where ty: "get_prop d ''type'' = Inr ty"
    and m: "get_prop d ''meta'' = Inr m"
    by (auto split: sum.splits)
  let ?node = "\<lparr> node_id = ident, node_type = js_or ty (JStr ''default''),
                 transitions = [], outgoing = [], meta = js_or m (JObj []) \<rparr>"
  let ?g = "graph \<lparr> nodes := AList.update ident ?node (nodes graph) \<rparr>"
  from "2.prems"(1) ty m have rest: "create_nodes rest ?g = Inr g'" by simp
  have "nodes_invariant ?g"
    by (rule nodes_invariant_update[OF "2.prems"(2)]) (simp_all add: truthy_js_or)
  from "2.IH"[OF ty m rest this] show ?case .
qed

lemma normalizeTransition_actions:
  "normalizeTransition td ident ev = Inr tr \<Longrightarrow> truthy (actions tr)"
  by (cases td) (auto simp: normalizeTransition_def truthy_js_or split: sum.splits)

lemma nodes_get_SomeD: "nodes_get g k = Some node \<Longrightarrow> (k, node) \<in> set (nodes g)"
  by (simp add: nodes_get_def map_of_SomeD)

lemma build_edges_invariant:
  "build_edges ident es g = Inr g' \<Longrightarrow> nodes_invariant g \<Longrightarrow> nodes_invariant g'"
proof (induction es arbitrary: g)
  case Nil
  then show ?case by simp
next
  case (Cons a es)
  obtain ev td where a: "a = (ev, td)" by (cases a)
  from Cons.prems(1) obtain tr tg node where
    tr: "normalizeTransition td ident ev = Inr tr" "target tr = JStr tg"
    and has: "nodes_has g tg" and node: "nodes_get g ident = Some node"
    and rest: "build_edges ident es
         (g \<lparr> nodes := AList.update ident
                 (node \<lparr> transitions := AList.update ev
                            \<lparr> source = source tr, target = tg, event = event tr,
                              cond = cond tr, actions = actions tr \<rparr> (transitions node),
                         outgoing := outgoing node @
                            [\<lparr> source = source tr, target = tg, event = event tr,
                               cond = cond tr, actions = actions tr \<rparr>] \<rparr>)
                 (nodes g) \<rparr>) = Inr g'"
    unfolding a by (auto simp: Let_def split: sum.splits json.splits if_splits option.splits)
  let ?t = "\<lparr> source = source tr, target = tg, event = event tr,
             cond = cond tr, actions = actions tr \<rparr>"
  let ?node = "node \<lparr> transitions := AList.update ev ?t (transitions node),
                      outgoing := outgoing node @ [?t] \<rparr>"
  from nodes_get_SomeD[OF node] Cons.prems(2)
  have old: "truthy (node_type node)" "truthy (meta node)" "distinct (map fst (transitions node))"
    "\<forall>(e, t) \<in> set (transitions node). nodes_has g (target t) \<and> truthy (actions t)"
    unfolding nodes_invariant_def by fastforce+
  have "nodes_invariant (g \<lparr> nodes := AList.update ident ?node (nodes g) \<rparr>)"
  proof (rule nodes_invariant_update[OF Cons.prems(2)])
    show "truthy (node_type ?node)" "truthy (meta ?node)" using old by simp_all
    show "distinct (map fst (transitions ?node))" using old by (simp add: distinct_update)
    show "\<forall>(e, t) \<in> set (transitions ?node).
            (target t = ident \<or> nodes_has g (target t)) \<and> truthy (actions t)"
    proof
      fix p assume "p \<in> set (transitions ?node)"
      then have "p = (ev, ?t) \<or> p \<in> set (transitions node)"
        using set_update_subset[of ev ?t "transitions node"] by auto
      then show "case p of (e, t) \<Rightarrow>
            (target t = ident \<or> nodes_has g (target t)) \<and> truthy (actions t)"
        using old(4) has normalizeTransition_actions[OF tr(1)] by auto
    qed
  qed
  from Cons.IH[OF rest this] show ?case .
qed

lemma link_states_invariant:
  "link_states es g = Inr g' \<Longrightarrow> nodes_invariant g \<Longrightarrow> nodes_invariant g'"
proof (induction es arbitrary: g)
  case Nil
  then show ?case by simp
next
  case (Cons a es)
  obtain ident d where a: "a = (ident, d)" by (cases a)
  from Cons.prems(1) obtain on where on: "get_prop d ''on'' = Inr on"
    unfolding a by (auto split: sum.splits)
  show ?case
  proof (cases "truthy on")
    case False
    with Cons.prems(1) a on have "link_states es g = Inr g'" by simp
    from Cons.IH[OF this Cons.prems(2)] show ?thesis .
  next
    case True
    with Cons.prems(1) a on obtain g1 where
      g1: "build_edges ident (object_entries on) g = Inr g1" and rest: "link_states es g1 = Inr g'"
      by (auto split: sum.splits)
    from Cons.IH[OF rest build_edges_invariant[OF g1 Cons.prems(2)]] show ?thesis .
  qed
qed

lemma parseMachine_Inr:
  assumes "parseMachine input = Inr g"
  obtains init states i g1 where
    "get_prop input ''initial'' = Inr (JStr init)"
    "get_prop input ''states'' = Inr states"
    "truthy states" "typeof_object states"
    "get_prop input ''id'' = Inr i"
    "create_nodes (object_entries states)
       \<lparr> graph_id = js_or i (JStr ''crypto-machine''), initial = init, nodes = [] \<rparr> = Inr g1"
    "nodes_has g1 (initial g1)"
    "link_states (object_entries states) g1 = Inr g"
  using assms unfolding parseMachine_def
  by (auto split: if_splits sum.splits json.splits)

lemma parseMachine_invariant:
  assumes "parseMachine input = Inr g"
  shows "nodes_invariant g" and "nodes_has g (initial g)"
proof -
  from assms obtain init states i g1 where
    c: "create_nodes (object_entries states)
       \<lparr> graph_id = js_or i (JStr ''crypto-machine''), initial = init, nodes = [] \<rparr> = Inr g1"
    and h: "nodes_has g1 (initial g1)"
    and l: "link_states (object_entries states) g1 = Inr g"
    by (rule parseMachine_Inr)
  have "nodes_invariant \<lparr> graph_id = js_or i (JStr ''crypto-machine''), initial = init, nodes = [] \<rparr>"
    by (simp add: nodes_invariant_def)
  from link_states_invariant[OF l create_nodes_invariant[OF c this]]
  show "nodes_invariant g" .
  from link_states_keys[OF l] h show "nodes_has g (initial g)"
    by (simp add: nodes_has_def)
qed

lemma nodes_get_iff:
  "distinct (map fst (nodes g)) \<Longrightarrow> nodes_get g k = Some node \<longleftrightarrow> (k, node) \<in> set (nodes g)"
  by (simp add: nodes_get_def)

section \<open>Claims about the parser\<close>

text \<open>
  Claim C6, as stated, fails: the errors \<open>INVALID_SCHEMA\<close> and \<open>MISSING_INITIAL\<close> are
  constructed without a path, and a state definition that is \<open>null\<close> makes \<open>parseMachine\<close>
  raise the runtime's \<open>TypeError\<close>, which is none of the three kinds.
\<close>

theorem parseMachine_error_counterexample:
  "parseMachine JNull
     = Inl (Parser \<lparr> code = INVALID_SCHEMA, details = Input_must_be_object, path = None \<rparr>)
   \<and> parseMachine (JObj [(''states'', JObj [(''a'', JObj [])])])
     = Inl (Parser \<lparr> code = MISSING_INITIAL, details = Must_define_initial, path = None \<rparr>)
   \<and> parseMachine machine_null_state = Inl TypeError"
  by (simp add: parse_unfold machine_null_state_def)

text \<open>
  Claim C6, amended. Every \<open>ParserError\<close> that \<open>parseMachine\<close> raises is
  \<open>INVALID_SCHEMA\<close> (the input is not an object, or \<open>states\<close> is missing or not an
  object), \<open>MISSING_INITIAL\<close> (\<open>initial\<close> is not a string) or \<open>INVALID_REFERENCE\<close>.
  Only \<open>INVALID_REFERENCE\<close> carries a path: \<open>['initial']\<close> when the initial id is no key
  of \<open>states\<close>, \<open>['states', id, 'on', event]\<close> when the target of the transition of state
  \<open>id\<close> on \<open>event\<close> is no key of \<open>states\<close>. The other two kinds carry none.
\<close>

theorem parseMachine_parser_errors:
  assumes "parseMachine input = Inl (Parser e)"
  shows "(code e = INVALID_SCHEMA \<and> path e = None
          \<and> (\<not> truthy input \<or> \<not> typeof_object input
               \<or> (\<exists>states. get_prop input ''states'' = Inr states
                     \<and> (\<not> truthy states \<or> \<not> typeof_object states))))
       \<or> (code e = MISSING_INITIAL \<and> path e = None
          \<and> (\<exists>v. get_prop input ''initial'' = Inr v \<and> (\<forall>s. v \<noteq> JStr s)))
       \<or> (code e = INVALID_REFERENCE
          \<and> (\<exists>init states.
                get_prop input ''initial'' = Inr (JStr init)
              \<and> get_prop input ''states'' = Inr states
              \<and> ((path e = Some [''initial''] \<and> init \<notin> fst ` set (object_entries states))
                 \<or> (\<exists>ident d on ev td tr.
                       (ident, d) \<in> set (object_entries states)
                     \<and> get_prop d ''on'' = Inr on
                     \<and> (ev, td) \<in> set (object_entries on)
                     \<and> normalizeTransition td ident ev = Inr tr
                     \<and> (\<forall>s \<in> fst ` set (object_entries states). target tr \<noteq> JStr s)
                     \<and> path e = Some [''states'', ident, ''on'', ev]))))"
proof (cases "\<not> truthy input \<or> \<not> typeof_object input")
  case True
  with assms show ?thesis by (auto simp: parseMachine_def)
next
  case obj: False
  then obtain v where v: "get_prop input ''initial'' = Inr v"
    by (cases input) auto
  show ?thesis
  proof (cases "\<exists>init. v = JStr init")
    case False
    with assms obj v have "e = \<lparr> code = MISSING_INITIAL, details = Must_define_initial, path = None \<rparr>"
      by (cases v) (auto simp: parseMachine_def)
    with v False show ?thesis by auto
  next
    case True
    then obtain init where init: "v = JStr init" by blast
    from obj obtain states where st: "get_prop input ''states'' = Inr states"
      by (cases input) auto
    from obj obtain i where i: "get_prop input ''id'' = Inr i"
      by (cases input) auto
    show ?thesis
    proof (cases "\<not> truthy states \<or> \<not> typeof_object states")
      case True
      with assms obj v init st
      have "e = \<lparr> code = INVALID_SCHEMA, details = Must_define_states, path = None \<rparr>"
        by (auto simp: parseMachine_def)
      with st True show ?thesis by auto
    next
      case sobj: False
      let ?g0 = "\<lparr> graph_id = js_or i (JStr ''crypto-machine''), initial = init, nodes = [] \<rparr>"
      show ?thesis
      proof (cases "create_nodes (object_entries states) ?g0")
        case (Inl x)
        from create_nodes_error[OF Inl] Inl assms obj v init st i sobj show ?thesis
          by (simp add: parseMachine_def)
      next
        case (Inr g)
        from create_nodes_keys[OF Inr] create_nodes_fields[OF Inr]
        have keys: "set (map fst (nodes g)) = fst ` set (object_entries states)"
          and ini: "initial g = init" by simp_all
        show ?thesis
        proof (cases "nodes_has g (initial g)")
          case False
          with assms obj v init st i sobj Inr
          have "e = \<lparr> code = INVALID_REFERENCE, details = Initial_not_defined (initial g),
                      path = Some [''initial''] \<rparr>"
            by (simp add: parseMachine_def)
          moreover from False keys ini have "init \<notin> fst ` set (object_entries states)"
            by (simp add: nodes_has_def)
          ultimately show ?thesis using v init st by simp
        next
          case True
          with assms obj v init st i sobj Inr
          have "link_states (object_entries states) g = Inl (Parser e)"
            by (simp add: parseMachine_def)
          from link_states_error[OF this] obtain ident d on ev td tr where
            f: "(ident, d) \<in> set (object_entries states)" "get_prop d ''on'' = Inr on"
            "(ev, td) \<in> set (object_entries on)" "normalizeTransition td ident ev = Inr tr"
            and nk: "\<forall>s \<in> set (map fst (nodes g)). target tr \<noteq> JStr s"
            and pe: "Parser e = unknown_target ident (target tr) ev"
            by blast
          from pe have c: "code e = INVALID_REFERENCE"
            and pa: "path e = Some [''states'', ident, ''on'', ev]"
            by (auto simp: unknown_target_def)
          from nk have "\<forall>s \<in> fst ` set (object_entries states). target tr \<noteq> JStr s"
            unfolding keys .
          with f c pa have "code e = INVALID_REFERENCE \<and>
                 (\<exists>ident d on ev td tr.
                       (ident, d) \<in> set (object_entries states)
                     \<and> get_prop d ''on'' = Inr on
                     \<and> (ev, td) \<in> set (object_entries on)
                     \<and> normalizeTransition td ident ev = Inr tr
                     \<and> (\<forall>s \<in> fst ` set (object_entries states). target tr \<noteq> JStr s)
                     \<and> path e = Some [''states'', ident, ''on'', ev])"
            by blast
          with v init st show ?thesis by blast
        qed
      qed
    qed
  qed
qed

theorem parseMachine_parser_errors_witness:
  "parseMachine machine_broken
     = Inl (Parser \<lparr> code = INVALID_REFERENCE, details = Unknown_target ''a'' (JStr ''b'') ''GO'',
                     path = Some [''states'', ''a'', ''on'', ''GO''] \<rparr>)
   \<and> (\<exists>init states.
          get_prop machine_broken ''initial'' = Inr (JStr init)
        \<and> get_prop machine_broken ''states'' = Inr states
        \<and> (\<exists>ident d on ev td tr.
               (ident, d) \<in> set (object_entries states)
             \<and> get_prop d ''on'' = Inr on
             \<and> (ev, td) \<in> set (object_entries on)
             \<and> normalizeTransition td ident ev = Inr tr
             \<and> [''states'', ident, ''on'', ev] = [''states'', ''a'', ''on'', ''GO'']))"
proof -
  let ?e = "\<lparr> code = INVALID_REFERENCE, details = Unknown_target ''a'' (JStr ''b'') ''GO'',
              path = Some [''states'', ''a'', ''on'', ''GO''] \<rparr>"
  have p: "parseMachine machine_broken = Inl (Parser ?e)"
    by (simp add: parse_unfold machine_broken_def)
  from parseMachine_parser_errors[OF p]
  have "\<exists>init states.
          get_prop machine_broken ''initial'' = Inr (JStr init)
        \<and> get_prop machine_broken ''states'' = Inr states
        \<and> (\<exists>ident d on ev td tr.
               (ident, d) \<in> set (object_entries states)
             \<and> get_prop d ''on'' = Inr on
             \<and> (ev, td) \<in> set (object_entries on)
             \<and> normalizeTransition td ident ev = Inr tr
             \<and> [''states'', ident, ''on'', ev] = [''states'', ''a'', ''on'', ''GO''])"
    by simp blast
  with p show ?thesis by blast
qed

section \<open>Claims about diagnostics and the facade\<close>

lemma generateReport_issues:
  "issues (generateReport g a)
     = map unreachable_issue (orphans a) @ map dead_end_issue (deadEnds a) @ map cycle_issue (cycles a)"
  by (simp add: generateReport_def Let_def)

lemma generateReport_severities:
  "i \<in> set (issues (generateReport g a)) \<Longrightarrow> severity i = Sev_warning \<or> severity i = Sev_info"
  by (auto simp: generateReport_issues unreachable_issue_def dead_end_issue_def cycle_issue_def)

lemma generateReport_status:
  "status (generateReport g a)
     = (if list_ex (\<lambda>i. severity i = Sev_error) (issues (generateReport g a)) then Status_error
        else if list_ex (\<lambda>i. severity i = Sev_warning) (issues (generateReport g a))
        then Status_warning else Status_valid)"
  by (simp add: generateReport_def Let_def)

lemma generateReport_no_error: "status (generateReport g a) \<noteq> Status_error"
proof -
  have "\<not> list_ex (\<lambda>i. severity i = Sev_error) (issues (generateReport g a))"
    using generateReport_severities[of _ g a] by (fastforce simp: list_ex_iff)
  then show ?thesis by (simp add: generateReport_status)
qed

text \<open>
  Claim C10, as stated, fails in its last part: a facade that has loaded nothing answers
  \<open>getDiagnostics\<close> with the status \<open>error\<close> and no parser error behind it.
\<close>

theorem error_status_counterexample:
  "status (getDiagnostics new_api) = Status_error \<and> lastParserError new_api = None
   \<and> issues (getDiagnostics new_api) = []"
  by (simp add: getDiagnostics_def new_api_def)

text \<open>
  Claim C10, amended. For every graph and every analysis result \<open>generateReport\<close> emits
  only issues of severity \<open>warning\<close> and \<open>info\<close>, so the status of its report is \<open>valid\<close>
  or \<open>warning\<close>, never \<open>error\<close>. A report of status \<open>error\<close> comes from
  \<open>formatParserError\<close>, or from \<open>getDiagnostics\<close> on a facade that holds no graph or no
  analysis (\<open>No machine loaded\<close>).
\<close>

theorem generateReport_never_error:
  "(\<forall>i \<in> set (issues (generateReport g a)). severity i = Sev_warning \<or> severity i = Sev_info)
   \<and> (status (generateReport g a) = Status_valid \<or> status (generateReport g a) = Status_warning)
   \<and> status (generateReport g a) \<noteq> Status_error
   \<and> status (formatParserError err) = Status_error
   \<and> (status (getDiagnostics api) = Status_error
        \<longrightarrow> (\<exists>e. lastParserError api = Some e \<and> getDiagnostics api = formatParserError e)
            \<or> (lastParserError api = None \<and> (graph api = None \<or> lastAnalysis api = None)))"
proof (intro conjI ballI impI)
  fix i assume "i \<in> set (issues (generateReport g a))"
  then show "severity i = Sev_warning \<or> severity i = Sev_info"
    by (rule generateReport_severities)
next
  show "status (generateReport g a) = Status_valid \<or> status (generateReport g a) = Status_warning"
    using generateReport_no_error[of g a] by (cases "status (generateReport g a)") simp_all
  show "status (generateReport g a) \<noteq> Status_error" by (rule generateReport_no_error)
  show "status (formatParserError err) = Status_error" by (simp add: formatParserError_def)
next
  assume "status (getDiagnostics api) = Status_error"
  then show "(\<exists>e. lastParserError api = Some e \<and> getDiagnostics api = formatParserError e)
            \<or> (lastParserError api = None \<and> (graph api = None \<or> lastAnalysis api = None))"
    using generateReport_no_error
    by (auto simp: getDiagnostics_def split: option.splits)
qed

theorem generateReport_never_error_witness:
  "issues (generateReport graph_ABC
       \<lparr> reachable = [''A'', ''B''], orphans = [''C''], deadEnds = [''B''], cycles = [],
         nondeterministic = [] \<rparr>) = [unreachable_issue ''C'', dead_end_issue ''B'']
   \<and> severity (unreachable_issue ''C'') = Sev_warning
   \<and> severity (dead_end_issue ''B'') = Sev_warning
   \<and> status (generateReport graph_ABC
       \<lparr> reachable = [''A'', ''B''], orphans = [''C''], deadEnds = [''B''], cycles = [],
         nondeterministic = [] \<rparr>) = Status_warning
   \<and> status (getDiagnostics new_api) = Status_error
   \<and> lastParserError new_api = None \<and> graph new_api = None"
proof -
  let ?a = "\<lparr> reachable = [''A'', ''B''], orphans = [''C''], deadEnds = [''B''], cycles = [],
         nondeterministic = [] \<rparr>"
  have i: "issues (generateReport graph_ABC ?a) = [unreachable_issue ''C'', dead_end_issue ''B'']"
    by (simp add: generateReport_issues)
  have "list_ex (\<lambda>i. severity i = Sev_warning) (issues (generateReport graph_ABC ?a))"
    by (simp add: i unreachable_issue_def)
  then have "status (generateReport graph_ABC ?a) \<noteq> Status_valid"
    by (simp add: generateReport_status)
  with generateReport_never_error[of graph_ABC ?a "\<lparr> code = INVALID_SCHEMA, details = Input_must_be_object, path = None \<rparr>" new_api]
  have "status (generateReport graph_ABC ?a) = Status_warning"
    and "\<forall>i \<in> set (issues (generateReport graph_ABC ?a)). severity i = Sev_warning \<or> severity i = Sev_info"
    by blast+
  moreover have "severity (unreachable_issue ''C'') = Sev_warning"
    and "severity (dead_end_issue ''B'') = Sev_warning"
    by (simp_all add: unreachable_issue_def dead_end_issue_def)
  moreover have "status (getDiagnostics new_api) = Status_error"
    and "lastParserError new_api = None" and "graph new_api = None"
    by (simp_all add: getDiagnostics_def new_api_def)
  ultimately show ?thesis using i by simp
qed

text \<open>
  Claim C9. When \<open>parseMachine\<close> fails on a definition, \<open>loadMachine\<close> leaves the facade
  with no graph, no simulator and no analysis, throws the error to the caller and keeps
  it (a \<open>TypeError\<close> as a \<open>ParserError\<close> of code \<open>INVALID_SCHEMA\<close>), so that
  \<open>getDiagnostics\<close> then returns a report of status \<open>error\<close> whose only issue has
  severity \<open>error\<close> and the code of that parser error, and whose metrics are zero.
\<close>

theorem loadMachine_failure:
  assumes "parseMachine d = Inl err"
  shows "getGraph (fst (loadMachine api d)) = None
       \<and> getSimulationState (fst (loadMachine api d)) = None
       \<and> lastAnalysis (fst (loadMachine api d)) = None
       \<and> snd (loadMachine api d) = Some err
       \<and> lastParserError (fst (loadMachine api d))
           = Some (case err of Parser e \<Rightarrow> e
                   | TypeError \<Rightarrow> \<lparr> code = INVALID_SCHEMA, details = Runtime_message, path = None \<rparr>)
       \<and> status (getDiagnostics (fst (loadMachine api d))) = Status_error
       \<and> (\<exists>i. issues (getDiagnostics (fst (loadMachine api d))) = [i]
              \<and> severity i = Sev_error
              \<and> issue_code i = code_name (case err of Parser e \<Rightarrow> code e
                                            | TypeError \<Rightarrow> INVALID_SCHEMA))
       \<and> metrics (getDiagnostics (fst (loadMachine api d)))
           = \<lparr> totalStates = 0, totalTransitions = 0, cyclomaticComplexity = 0 \<rparr>"
  using assms
  by (cases err)
     (simp_all add: loadMachine_def getGraph_def getSimulationState_def getDiagnostics_def
        formatParserError_def)

theorem loadMachine_failure_witness:
  "parseMachine JNull
     = Inl (Parser \<lparr> code = INVALID_SCHEMA, details = Input_must_be_object, path = None \<rparr>)
   \<and> getGraph (fst (loadMachine new_api machine_GO)) = Some graph_GO
   \<and> getGraph (fst (loadMachine (fst (loadMachine new_api machine_GO)) JNull)) = None
   \<and> getSimulationState (fst (loadMachine (fst (loadMachine new_api machine_GO)) JNull)) = None
   \<and> lastAnalysis (fst (loadMachine (fst (loadMachine new_api machine_GO)) JNull)) = None
   \<and> snd (loadMachine (fst (loadMachine new_api machine_GO)) JNull)
       = Some (Parser \<lparr> code = INVALID_SCHEMA, details = Input_must_be_object, path = None \<rparr>)
   \<and> status (getDiagnostics (fst (loadMachine (fst (loadMachine new_api machine_GO)) JNull)))
       = Status_error
   \<and> map issue_code (issues (getDiagnostics (fst (loadMachine (fst (loadMachine new_api machine_GO)) JNull))))
       = [''INVALID_SCHEMA'']"
proof -
  let ?api = "fst (loadMachine new_api machine_GO)"
  have p: "parseMachine JNull
     = Inl (Parser \<lparr> code = INVALID_SCHEMA, details = Input_must_be_object, path = None \<rparr>)"
    by (simp add: parseMachine_def)
  have g: "getGraph ?api = Some graph_GO"
    by (simp add: loadMachine_def parse_machine_GO getGraph_def)
  from loadMachine_failure[OF p, of ?api] p g show ?thesis
    by auto
qed

section \<open>Facts about the analyzer\<close>

lemma successors_reachable:
  "x \<in> reachable_ids g \<Longrightarrow> y \<in> successors g x \<Longrightarrow> y \<in> reachable_ids g"
  unfolding reachable_ids_def by (auto intro: rtrancl_into_rtrancl)

lemma initial_reachable: "initial g \<in> reachable_ids g"
  unfolding reachable_ids_def by simp

lemma reachable_ids_least:
  assumes "initial g \<in> S" and "\<And>x. x \<in> S \<Longrightarrow> successors g x \<subseteq> S"
  shows "reachable_ids g \<subseteq> S"
proof
  fix y assume "y \<in> reachable_ids g"
  then have "(initial g, y) \<in> {(x, y). y \<in> successors g x}\<^sup>*"
    by (simp add: reachable_ids_def)
  then show "y \<in> S"
  proof (induction rule: rtrancl_induct)
    case base
    show ?case by (rule assms(1))
  next
    case (step y z)
    with assms(2)[of y] show ?case by auto
  qed
qed

lemma visit_targets_sets:
  "visit_targets ts (r, q) = (r', q') \<Longrightarrow>
     set r' = set r \<union> target ` set ts \<and> set q' = set q \<union> (target ` set ts - set r)"
proof (induction ts arbitrary: r q)
  case Nil
  then show ?case by simp
next
  case (Cons t ts)
  show ?case
  proof (cases "target t \<in> set r")
    case True
    with Cons.prems have "visit_targets ts (r, q) = (r', q')" by simp
    from Cons.IH[OF this] True show ?thesis by auto
  next
    case False
    with Cons.prems have "visit_targets ts (r @ [target t], q @ [target t]) = (r', q')" by simp
    from Cons.IH[OF this] False show ?thesis by auto
  qed
qed

lemma bfs_reachable: "bfs_invariant g r q \<Longrightarrow> set (bfs g r q) = reachable_ids g"
proof (induction g r q rule: bfs.induct)
  case (1 g r)
  then have "reachable_ids g \<subseteq> set r"
    by (intro reachable_ids_least) (auto simp: bfs_invariant_def)
  with 1 show ?case by (auto simp: bfs_invariant_def)
next
  case (2 g r ident queue)
  note inv = "2.prems"
  show ?case
  proof (cases "nodes_get g ident")
    case None
    then have "successors g ident = {}" by (simp add: successors_def)
    with inv have "bfs_invariant g r queue"
      unfolding bfs_invariant_def by auto
    with "2.IH"(1)[OF None] None show ?thesis by simp
  next
    case (Some node)
    obtain r' q' where v: "visit_targets (outgoing node) (r, queue) = (r', q')"
      by (cases "visit_targets (outgoing node) (r, queue)")
    from Some have succ: "successors g ident = target ` set (outgoing node)"
      by (simp add: successors_def)
    from visit_targets_sets[OF v]
    have r': "set r' = set r \<union> target ` set (outgoing node)"
      and q': "set q' = set queue \<union> (target ` set (outgoing node) - set r)" by simp_all
    from inv have "ident \<in> reachable_ids g" unfolding bfs_invariant_def by auto
    then have "target ` set (outgoing node) \<subseteq> reachable_ids g"
      using successors_reachable[of ident g] succ by auto
    with inv r' q' succ have "bfs_invariant g r' q'"
      unfolding bfs_invariant_def by auto
    from "2.IH"(2)[OF Some v[symmetric] this] Some v show ?thesis by simp
  qed
qed

lemma analyzeReachability_reachable:
  "set (fst (analyzeReachability g)) = reachable_ids g"
proof -
  have "bfs_invariant g [initial g] [initial g]"
    by (simp add: bfs_invariant_def initial_reachable)
  from bfs_reachable[OF this] show ?thesis by (simp add: analyzeReachability_def Let_def)
qed

lemma fold_orphans:
  "set (fold (\<lambda>ident acc. if ident \<notin> R then set_add ident acc else acc) ks acc)
     = set acc \<union> (set ks - R)"
  by (induction ks arbitrary: acc) (auto simp: set_set_add)

lemma analyzeReachability_orphans:
  "set (snd (analyzeReachability g)) = set (map fst (nodes g)) - reachable_ids g"
proof -
  have "set (snd (analyzeReachability g))
        = set (map fst (nodes g)) - set (fst (analyzeReachability g))"
    by (simp add: analyzeReachability_def Let_def fold_orphans)
  then show ?thesis by (simp only: analyzeReachability_reachable)
qed

lemma fold_deadEnds:
  "set (fold (\<lambda>(ident, node) deadEnds.
             if ident \<notin> R then deadEnds
             else if node_type node \<noteq> JStr ''final'' \<and> length (outgoing node) = 0
             then set_add ident deadEnds
             else deadEnds) ns acc)
     = set acc \<union> {ident. \<exists>node. (ident, node) \<in> set ns \<and> ident \<in> R
                      \<and> node_type node \<noteq> JStr ''final'' \<and> outgoing node = []}"
proof (induction ns arbitrary: acc)
  case Nil
  show ?case by simp
next
  case (Cons a ns)
  obtain ident node where a: "a = (ident, node)" by (cases a)
  show ?case unfolding a by (simp add: Cons.IH set_set_add) blast
qed

lemma analyzeDeadEnds_set:
  "set (analyzeDeadEnds g r)
     = {ident. \<exists>node. (ident, node) \<in> set (nodes g) \<and> ident \<in> set r
                      \<and> node_type node \<noteq> JStr ''final'' \<and> outgoing node = []}"
  by (simp add: analyzeDeadEnds_def fold_deadEnds)

lemma analyzeGraph_fields:
  "reachable (analyzeGraph g) = fst (analyzeReachability g)"
  "orphans (analyzeGraph g) = snd (analyzeReachability g)"
  "deadEnds (analyzeGraph g) = analyzeDeadEnds g (fst (analyzeReachability g))"
  "cycles (analyzeGraph g) = analyzeCycles g"
  by (simp_all add: analyzeGraph_def split: prod.splits)

lemma analyze_ABC:
  "reachable (analyzeGraph graph_ABC) = [''A'', ''B'']"
  "orphans (analyzeGraph graph_ABC) = [''C'']"
  "deadEnds (analyzeGraph graph_ABC) = [''B'']"
  by (simp_all add: analyzeGraph_fields analyzeReachability_def analyzeDeadEnds_def graph_ABC_def
      nodes_get_def set_add_def)

section \<open>Claims about the analyzer\<close>

text \<open>
  Claim C1. For every graph that \<open>parseMachine\<close> returns, \<open>analyzeGraph\<close> returns as
  \<open>reachable\<close> exactly the ids that outgoing transitions lead to from the initial state,
  as \<open>orphans\<close> all node ids but those, and as \<open>deadEnds\<close> exactly the reachable nodes
  that are not final and have no outgoing transition; so no dead end is an orphan. On
  \<open>{initial: "A", states: {A: {on: {NEXT: "B"}}, B: {}, C: {}}}\<close> it returns
  \<open>reachable = {A, B}\<close> and \<open>orphans = {C}\<close>, and \<open>C\<close> is no dead end.
\<close>

theorem analyzeGraph_sets:
  assumes "parseMachine input = Inr g"
  shows "set (reachable (analyzeGraph g)) = reachable_ids g
       \<and> set (orphans (analyzeGraph g)) = set (map fst (nodes g)) - reachable_ids g
       \<and> set (deadEnds (analyzeGraph g))
           = {ident. \<exists>node. nodes_get g ident = Some node \<and> ident \<in> reachable_ids g
                        \<and> node_type node \<noteq> JStr ''final'' \<and> length (outgoing node) = 0}
       \<and> set (deadEnds (analyzeGraph g)) \<inter> set (orphans (analyzeGraph g)) = {}
       \<and> parseMachine machine_ABC = Inr graph_ABC
       \<and> reachable (analyzeGraph graph_ABC) = [''A'', ''B'']
       \<and> orphans (analyzeGraph graph_ABC) = [''C'']
       \<and> ''C'' \<notin> set (deadEnds (analyzeGraph graph_ABC))"
proof -
  have r: "set (reachable (analyzeGraph g)) = reachable_ids g"
    by (simp add: analyzeGraph_fields analyzeReachability_reachable)
  have o: "set (orphans (analyzeGraph g)) = set (map fst (nodes g)) - reachable_ids g"
    by (simp only: analyzeGraph_fields analyzeReachability_orphans)
  from parseMachine_invariant(1)[OF assms] have d: "distinct (map fst (nodes g))"
    by (simp add: nodes_invariant_def)
  have e: "set (deadEnds (analyzeGraph g))
           = {ident. \<exists>node. nodes_get g ident = Some node \<and> ident \<in> reachable_ids g
                        \<and> node_type node \<noteq> JStr ''final'' \<and> length (outgoing node) = 0}"
    by (simp add: analyzeGraph_fields analyzeDeadEnds_set analyzeReachability_reachable
        nodes_get_iff[OF d])
  from e o have "set (deadEnds (analyzeGraph g)) \<inter> set (orphans (analyzeGraph g)) = {}"
    by auto
  with r o e show ?thesis
    by (simp add: parse_machine_ABC analyze_ABC)
qed

theorem analyzeGraph_sets_witness:
  "parseMachine machine_cycle = Inr graph_cycle
   \<and> reachable_ids graph_cycle = {''A'', ''B''}
   \<and> set (orphans (analyzeGraph graph_cycle)) = {}
   \<and> set (deadEnds (analyzeGraph graph_cycle)) = {}"
proof -
  have r: "reachable (analyzeGraph graph_cycle) = [''A'', ''B'']"
    and o: "orphans (analyzeGraph graph_cycle) = []"
    and d: "deadEnds (analyzeGraph graph_cycle) = []"
    by (simp_all add: analyzeGraph_fields analyzeReachability_def analyzeDeadEnds_def
        graph_cycle_def nodes_get_def set_add_def)
  from analyzeGraph_sets[OF parse_machine_cycle]
  have "set (reachable (analyzeGraph graph_cycle)) = reachable_ids graph_cycle" by blast
  with r o d parse_machine_cycle show ?thesis by auto
qed

lemma set_new_Set: "set (new_Set xs) = set xs"
proof -
  have "set (fold set_add xs acc) = set acc \<union> set xs" for acc
    by (induction xs arbitrary: acc) (auto simp: set_set_add)
  then show ?thesis by (simp add: new_Set_def)
qed

lemma set_slice_from: "set (slice_from p x) \<subseteq> set p"
  by (auto simp: slice_from_def dest: set_dropWhileD)

lemma dfs_preserves_invariant:
  "currentId \<in> reachable_ids g \<Longrightarrow> dfs_invariant g st \<Longrightarrow> dfs_invariant g (dfs g currentId st)"
  "target ` set ts \<subseteq> reachable_ids g \<Longrightarrow> dfs_invariant g st \<Longrightarrow> dfs_invariant g (dfs_for g ts st)"
proof (induction g currentId st and g ts st rule: dfs_dfs_for.induct)
  case (1 g currentId st)
  let ?st1 = "st \<lparr> visited := set_add currentId (visited st),
                   recursionStack := set_add currentId (recursionStack st),
                   dfs_path := dfs_path st @ [currentId] \<rparr>"
  let ?st2 = "case nodes_get g currentId of None \<Rightarrow> ?st1
              | Some node \<Rightarrow> dfs_for g (outgoing node) ?st1"
  from "1.prems" have i1: "dfs_invariant g ?st1" by (simp add: dfs_invariant_def)
  have i2: "dfs_invariant g ?st2"
  proof (cases "nodes_get g currentId")
    case None
    with i1 show ?thesis by simp
  next
    case (Some node)
    then have "target ` set (outgoing node) = successors g currentId"
      by (simp add: successors_def)
    with "1.prems"(1) have "target ` set (outgoing node) \<subseteq> reachable_ids g"
      using successors_reachable[of currentId g] by auto
    from "1.IH"[OF refl Some this i1] Some show ?thesis by simp
  qed
  have "dfs g currentId st
        = ?st2 \<lparr> recursionStack := removeAll currentId (recursionStack ?st2),
                 dfs_path := butlast (dfs_path ?st2) \<rparr>"
    by (simp add: Let_def)
  moreover have "set (butlast (dfs_path ?st2)) \<subseteq> set (dfs_path ?st2)"
    by (auto dest: in_set_butlastD)
  ultimately show ?case using i2 by (auto simp: dfs_invariant_def)
next
  case (2 g st)
  then show ?case by simp
next
  case (3 g t ts st)
  from "3.prems"(1) have t: "target t \<in> reachable_ids g"
    and ts: "target ` set ts \<subseteq> reachable_ids g" by auto
  show ?case
  proof (cases "target t \<notin> set (visited st)")
    case True
    from "3.IH"(2)[OF True ts "3.IH"(1)[OF True t "3.prems"(2)]] True
    show ?thesis by simp
  next
    case False
    show ?thesis
    proof (cases "target t \<in> set (recursionStack st)")
      case True
      let ?st = "st \<lparr> dfs_cycles := dfs_cycles st @ [new_Set (slice_from (dfs_path st) (target t))] \<rparr>"
      from "3.prems"(2) set_slice_from[of "dfs_path st" "target t"]
      have "dfs_invariant g ?st"
        by (auto simp: dfs_invariant_def set_new_Set)
      from "3.IH"(3)[OF False True ts this] False True show ?thesis by simp
    next
      case nb: False
      from "3.IH"(4)[OF False nb ts "3.prems"(2)] False nb show ?thesis by simp
    qed
  qed
qed

lemma analyze_cycle_example: "analyzeCycles graph_cycle = [[''A'', ''B'']]"
  by code_simp

text \<open>
  Claim C5. Every member of every cycle that \<open>analyzeCycles\<close> reports is reachable from
  the initial state, so a cycle among orphans is never reported; and on
  \<open>{initial: "A", states: {A: {on: {NEXT: "B"}}, B: {on: {BACK: "A"}}}}\<close> it reports
  exactly one cycle, with the members \<open>A\<close> and \<open>B\<close>.
\<close>

theorem analyzeCycles_reachable_only:
  "(\<forall>c \<in> set (analyzeCycles g). \<forall>x \<in> set c. x \<in> reachable_ids g)
   \<and> parseMachine machine_cycle = Inr graph_cycle
   \<and> analyzeCycles graph_cycle = [[''A'', ''B'']]"
proof -
  let ?st0 = "\<lparr> dfs_cycles = [], visited = [], recursionStack = [], dfs_path = [] \<rparr>"
  have "dfs_invariant g ?st0" by (simp add: dfs_invariant_def)
  from dfs_preserves_invariant(1)[OF initial_reachable this]
  have "\<forall>c \<in> set (dfs_cycles (dfs g (initial g) ?st0)). set c \<subseteq> reachable_ids g"
    by (simp add: dfs_invariant_def)
  then have "\<forall>c \<in> set (analyzeCycles g). \<forall>x \<in> set c. x \<in> reachable_ids g"
    by (auto simp: analyzeCycles_def)
  then show ?thesis by (simp add: parse_machine_cycle analyze_cycle_example)
qed

theorem analyzeCycles_reachable_only_witness:
  "parseMachine machine_orphan_cycle = Inr graph_orphan_cycle
   \<and> analyzeCycles graph_orphan_cycle = [[''A'']]
   \<and> ''A'' \<in> reachable_ids graph_orphan_cycle
   \<and> orphans (analyzeGraph graph_orphan_cycle) = [''C'', ''D'']"
proof -
  have c: "analyzeCycles graph_orphan_cycle = [[''A'']]"
    by code_simp
  have o: "orphans (analyzeGraph graph_orphan_cycle) = [''C'', ''D'']"
    by (simp add: analyzeGraph_fields analyzeReachability_def graph_orphan_cycle_def
        nodes_get_def set_add_def)
  from analyzeCycles_reachable_only[of graph_orphan_cycle] c
  have "''A'' \<in> reachable_ids graph_orphan_cycle" by simp
  with c o parse_machine_orphan_cycle show ?thesis by simp
qed

section \<open>Facts about the serializer\<close>

lemma transition_to_json_typed:
  "\<not> is_object (actions t) \<Longrightarrow> transition_to_json is_positive t = Inr (transition_json t)"
  by (cases "actions t") (simp_all add: transition_to_json_def transition_json_def)

lemma on_to_json_typed:
  "list_all (\<lambda>(ev, t). \<not> is_object (actions t)) ts \<Longrightarrow>
     on_to_json is_positive ts on
       = Inr (fold (\<lambda>(ev, t) on. obj_set ev (transition_json t) on) ts on)"
  by (induction ts arbitrary: on) (auto simp: transition_to_json_typed)

lemma state_to_json_typed:
  "list_all (\<lambda>(ev, t). \<not> is_object (actions t)) (transitions node) \<Longrightarrow>
     state_to_json is_positive node = Inr (state_json node)"
  by (simp add: state_to_json_def state_json_def on_to_json_typed)

lemma states_to_json_typed:
  "list_all (\<lambda>(ident, node). list_all (\<lambda>(ev, t). \<not> is_object (actions t)) (transitions node)) ns \<Longrightarrow>
     states_to_json is_positive ns states
       = Inr (fold (\<lambda>(ident, node) states. obj_set ident (state_json node) states) ns states)"
  by (induction ns arbitrary: states) (auto simp: state_to_json_typed)

lemma graphToJSON_typed:
  "actions_typed g \<Longrightarrow> graphToJSON is_positive g = Inr (graph_json g)"
  by (simp add: graphToJSON_def graph_json_def actions_typed_def states_to_json_typed)

lemma graphToJSON_shape:
  "graphToJSON is_positive g = Inr d \<Longrightarrow>
     \<exists>states. d = JObj [(''initial'', JStr (initial g)), (''states'', JObj states)]"
  by (auto simp: graphToJSON_def split: sum.splits)

lemma json_number_stable: "json_stable (json_number n)"
  by (cases n) simp_all

lemma jsonify_stable: "json_stable v \<Longrightarrow> jsonify v = v"
proof (induction v)
  case (JArr xs)
  then have "map (\<lambda>v. if v = JUndefined then JNull else jsonify v) xs = xs"
    by (intro map_idI) (auto simp: list_all_iff)
  then show ?case by simp
next
  case (JObj kvs)
  from JObj.prems have "filter (\<lambda>(k, v). v \<noteq> JUndefined) kvs = kvs"
    by (intro filter_True) (auto simp: list_all_iff)
  moreover have "map (\<lambda>(k, v). (k, jsonify v)) kvs = kvs"
    using JObj by (intro map_idI) (fastforce simp: list_all_iff)
  ultimately show ?case by simp
qed simp_all

lemma stable_jsonify: "v \<noteq> JUndefined \<Longrightarrow> json_stable (jsonify v)"
proof (induction v)
  case (JArr xs)
  then show ?case by (auto simp: list_all_iff)
next
  case (JObj kvs)
  then show ?case by (fastforce simp: list_all_iff)
qed (simp_all add: json_number_stable)

lemma jsonify_idem: "jsonify (jsonify v) = jsonify v"
proof (cases "v = JUndefined")
  case True
  then show ?thesis by simp
next
  case False
  from jsonify_stable[OF stable_jsonify[OF this]] show ?thesis .
qed

lemma import_export:
  assumes "graphToJSON is_positive g = Inr d"
  shows "\<exists>text. exportSession is_positive now g sim = Inr text
           \<and> importSession text = Inr (jsonify d, JArr (map JStr (history (sim_state sim))))"
proof -
  have h: "map (\<lambda>v. if v = JUndefined then JNull else jsonify v) (map JStr xs) = map JStr xs" for xs
    by (induction xs) simp_all
  from graphToJSON_shape[OF assms] obtain states
    where d: "d = JObj [(''initial'', JStr (initial g)), (''states'', JObj states)]" by blast
  show ?thesis
    by (simp add: importSession_def exportSession_def JSON_stringify_def JSON_parse_def
        assms Let_def h) (simp add: d)
qed

section \<open>Claims about the serializer\<close>

text \<open>
  Claim C7, as stated, fails. \<open>exportSession\<close> does not return for every validated
  graph: \<open>parseMachine\<close> accepts any truthy value as \<open>actions\<close>, and for the object
  \<open>{"length": {"toString": 1}}\<close> the test \<open>t.actions.length > 0\<close> of \<open>graphToJSON\<close>
  raises a \<open>TypeError\<close> (whatever the conversion of strings to numbers, which is not
  reached). And where it returns, the imported machine is not \<open>graphToJSON(g)\<close> itself:
  \<open>graphToJSON\<close> writes \<open>cond: undefined\<close> into the object form of a transition that has
  actions and no guard, and a JSON text cannot carry that property, so the imported
  machine lacks it.
\<close>

theorem import_export_counterexample:
  "parseMachine machine_length_object = Inr graph_length_object
   \<and> graphToJSON (\<lambda>s. False) graph_length_object = Inl TypeError
   \<and> graphToJSON (\<lambda>s. True) graph_length_object = Inl TypeError
   \<and> exportSession (\<lambda>s. False) ''2026-01-01T00:00:00.000Z'' graph_length_object
         \<lparr> sim_graph = graph_length_object, sim_state = new_engine graph_length_object \<rparr>
       = Inl TypeError
   \<and> parseMachine machine_actions = Inr graph_actions
   \<and> graphToJSON (\<lambda>s. False) graph_actions
       = Inr (JObj [(''initial'', JStr ''A''),
               (''states'',
                  JObj [(''A'', JObj [(''type'', JStr ''default''), (''meta'', JObj []),
                     (''on'', JObj [(''GO'', JObj [(''target'', JStr ''A''),
                                                   (''cond'', JUndefined),
                                                   (''actions'', JArr [JStr ''log''])])])])])])
   \<and> map_sum id importSession
       (exportSession (\<lambda>s. False) ''2026-01-01T00:00:00.000Z'' graph_actions
          \<lparr> sim_graph = graph_actions, sim_state = new_engine graph_actions \<rparr>)
       = Inr (Inr (JObj [(''initial'', JStr ''A''),
               (''states'',
                  JObj [(''A'', JObj [(''type'', JStr ''default''), (''meta'', JObj []),
                     (''on'', JObj [(''GO'', JObj [(''target'', JStr ''A''),
                                                   (''actions'', JArr [JStr ''log''])])])])])],
              JArr [JStr ''A'']))
   \<and> map_sum id (\<lambda>text. map_sum id fst (importSession text))
       (exportSession (\<lambda>s. False) ''2026-01-01T00:00:00.000Z'' graph_actions
          \<lparr> sim_graph = graph_actions, sim_state = new_engine graph_actions \<rparr>)
       \<noteq> map_sum id Inr (graphToJSON (\<lambda>s. False) graph_actions)"
proof -
  have l: "graphToJSON is_positive graph_length_object = Inl TypeError" for is_positive
    by (simp add: graphToJSON_def state_to_json_def transition_to_json_def
        graph_length_object_def)
  have g: "graphToJSON (\<lambda>s. False) graph_actions
       = Inr (JObj [(''initial'', JStr ''A''),
               (''states'',
                  JObj [(''A'', JObj [(''type'', JStr ''default''), (''meta'', JObj []),
                     (''on'', JObj [(''GO'', JObj [(''target'', JStr ''A''),
                                                   (''cond'', JUndefined),
                                                   (''actions'', JArr [JStr ''log''])])])])])])"
    by (simp add: graphToJSON_def state_to_json_def transition_to_json_def obj_set_def
        graph_actions_def)
  have n: "history (sim_state \<lparr> sim_graph = graph_actions, sim_state = new_engine graph_actions \<rparr>)
           = [''A'']"
    by (simp add: new_engine_def graph_actions_def)
  from import_export[OF g, of "''2026-01-01T00:00:00.000Z''"
      "\<lparr> sim_graph = graph_actions, sim_state = new_engine graph_actions \<rparr>"]
  have r: "map_sum id importSession
       (exportSession (\<lambda>s. False) ''2026-01-01T00:00:00.000Z'' graph_actions
          \<lparr> sim_graph = graph_actions, sim_state = new_engine graph_actions \<rparr>)
       = Inr (Inr (JObj [(''initial'', JStr ''A''),
               (''states'',
                  JObj [(''A'', JObj [(''type'', JStr ''default''), (''meta'', JObj []),
                     (''on'', JObj [(''GO'', JObj [(''target'', JStr ''A''),
                                                   (''actions'', JArr [JStr ''log''])])])])])],
              JArr [JStr ''A'']))"
    unfolding n by auto
  then have q: "map_sum id (\<lambda>text. map_sum id fst (importSession text))
       (exportSession (\<lambda>s. False) ''2026-01-01T00:00:00.000Z'' graph_actions
          \<lparr> sim_graph = graph_actions, sim_state = new_engine graph_actions \<rparr>)
       \<noteq> map_sum id Inr (graphToJSON (\<lambda>s. False) graph_actions)"
    unfolding g
    by (cases "exportSession (\<lambda>s. False) ''2026-01-01T00:00:00.000Z'' graph_actions
          \<lparr> sim_graph = graph_actions, sim_state = new_engine graph_actions \<rparr>") auto
  show ?thesis
    using parse_machine_length_object parse_machine_actions l g r q
    by (simp add: exportSession_def)
qed

text \<open>
  Claim C7, amended. For every graph \<open>g\<close> on which \<open>graphToJSON\<close> returns, which it does
  whenever no \<open>actions\<close> field holds an object (the declared type of the field is
  \<open>string[]\<close>), and for every engine \<open>s\<close>: \<open>exportSession(g, s)\<close> returns, and
  \<open>importSession\<close> of the text succeeds; its \<open>history\<close> is the history of \<open>s\<close> at the
  time of the export; its \<open>machine\<close> is \<open>graphToJSON(g)\<close> as a JSON text carries it:
  without the properties whose value is \<open>undefined\<close>, with \<open>null\<close> for \<open>undefined\<close> in an
  array and for a number that is \<open>NaN\<close> or infinite, and with \<open>0\<close> for \<open>-0\<close>. The two
  serialize to the same JSON text, and they are equal when \<open>graphToJSON(g)\<close> holds none
  of these values.
\<close>

theorem import_export_session:
  "(actions_typed g \<longrightarrow> (\<exists>d. graphToJSON is_positive g = Inr d))
   \<and> (\<forall>d. graphToJSON is_positive g = Inr d \<longrightarrow>
         (\<exists>text. exportSession is_positive now g sim = Inr text
            \<and> importSession text
                = Inr (jsonify d, JArr (map JStr (history (sim_state sim)))))
       \<and> JSON_stringify (jsonify d) = JSON_stringify d
       \<and> (json_stable d \<longrightarrow> jsonify d = d))"
  using import_export[of is_positive g _ now sim]
  by (auto simp: graphToJSON_typed JSON_stringify_def jsonify_idem jsonify_stable)

theorem import_export_session_witness:
  "actions_typed graph_GO
   \<and> (\<exists>d. graphToJSON (\<lambda>s. False) graph_GO = Inr d \<and> json_stable d
        \<and> map_sum id importSession
            (exportSession (\<lambda>s. False) ''2026-01-01T00:00:00.000Z'' graph_GO
               \<lparr> sim_graph = graph_GO, sim_state = send graph_GO (new_engine graph_GO) ''GO'' \<rparr>)
          = Inr (Inr (d, JArr [JStr ''A'', JStr ''B''])))"
proof -
  let ?sim = "\<lparr> sim_graph = graph_GO, sim_state = send graph_GO (new_engine graph_GO) ''GO'' \<rparr>"
  have t: "actions_typed graph_GO"
    by (simp add: actions_typed_def graph_GO_def)
  have h: "history (sim_state ?sim) = [''A'', ''B'']"
    by (simp add: send_def transition_def nodes_get_def new_engine_def graph_GO_def)
  from import_export_session[of graph_GO "\<lambda>s. False" "''2026-01-01T00:00:00.000Z''" ?sim] t
  obtain d where d: "graphToJSON (\<lambda>s. False) graph_GO = Inr d"
    and r: "\<exists>text. exportSession (\<lambda>s. False) ''2026-01-01T00:00:00.000Z'' graph_GO ?sim = Inr text
            \<and> importSession text = Inr (jsonify d, JArr (map JStr (history (sim_state ?sim))))"
    and e: "json_stable d \<longrightarrow> jsonify d = d"
    by blast
  have "d = graph_json graph_GO"
    using d graphToJSON_typed[OF t, of "\<lambda>s. False"] by simp
  then have u: "json_stable d"
    by (simp add: graph_json_def state_json_def transition_json_def obj_set_def graph_GO_def)
  with e have "jsonify d = d" by simp
  with r h have "map_sum id importSession
            (exportSession (\<lambda>s. False) ''2026-01-01T00:00:00.000Z'' graph_GO ?sim)
          = Inr (Inr (d, JArr [JStr ''A'', JStr ''B'']))"
    by auto
  with t d u show ?thesis by blast
qed

section \<open>Parsing what the serializer wrote\<close>

text \<open>For a graph that holds no object as \<open>actions\<close>.\<close>

lemma update_fresh: "k \<notin> fst ` set al \<Longrightarrow> AList.update k v al = al @ [(k, v)]"
  by (induction al) auto

lemma update_middle:
  "k \<notin> fst ` set pre \<Longrightarrow> AList.update k v (pre @ (k, v0) # post) = pre @ (k, v) # post"
  by (induction pre) auto

lemma map_of_middle: "k \<notin> fst ` set pre \<Longrightarrow> map_of (pre @ (k, v0) # post) k = Some v0"
  by (induction pre) auto

lemma fold_update_distinct:
  "distinct (map fst xs) \<Longrightarrow> fst ` set xs \<inter> fst ` set acc = {} \<Longrightarrow>
     fold (\<lambda>(k, v) acc. AList.update k (f k v) acc) xs acc = acc @ map (\<lambda>(k, v). (k, f k v)) xs"
proof (induction xs arbitrary: acc)
  case Nil
  show ?case by simp
next
  case (Cons a xs)
  obtain k v where a: "a = (k, v)" by (cases a)
  from Cons.prems a have fresh: "k \<notin> fst ` set acc" by auto
  have "fst ` set xs \<inter> fst ` set (acc @ [(k, f k v)]) = {}"
    using Cons.prems a by auto
  with Cons.IH[of "acc @ [(k, f k v)]"] Cons.prems a
  have "fold (\<lambda>(k, v) acc. AList.update k (f k v) acc) xs (acc @ [(k, f k v)])
        = (acc @ [(k, f k v)]) @ map (\<lambda>(k, v). (k, f k v)) xs"
    by simp
  then show ?case by (simp add: a update_fresh[OF fresh])
qed

lemma fold_obj_set_plain:
  "''__proto__'' \<notin> fst ` set xs \<Longrightarrow>
     fold (\<lambda>(k, v) acc. obj_set k (f k v) acc) xs acc
       = fold (\<lambda>(k, v) acc. AList.update k (f k v) acc) xs acc"
  by (induction xs arbitrary: acc) (auto simp: obj_set_def)

lemma fold_obj_set_distinct:
  assumes "''__proto__'' \<notin> fst ` set xs" "distinct (map fst xs)"
  shows "fold (\<lambda>(k, v) acc. obj_set k (f k v) acc) xs [] = map (\<lambda>(k, v). (k, f k v)) xs"
  using fold_obj_set_plain[OF assms(1), of f "[]"] fold_update_distinct[OF assms(2), of "[]" f]
  by simp

lemma transition_json_normal:
  "transition_json (normal_transition ident ev t) = transition_json t"
  by (simp add: transition_json_def normal_transition_def)

lemma state_json_normal: "state_json (normal_node ident node) = state_json node"
proof -
  have "fold (\<lambda>(ev, t) on. obj_set ev (transition_json t) on)
          (map (\<lambda>(ev, t). (ev, normal_transition ident ev t)) ts) acc
        = fold (\<lambda>(ev, t) on. obj_set ev (transition_json t) on) ts acc" for ts acc
    by (induction ts arbitrary: acc) (auto simp: transition_json_normal)
  then show ?thesis by (simp add: state_json_def normal_node_def)
qed

lemma graph_json_normal: "graph_json (normal_graph g) = graph_json g"
proof -
  have "fold (\<lambda>(ident, node) states. obj_set ident (state_json node) states)
          (map (\<lambda>(ident, node). (ident, normal_node ident node)) ns) acc
        = fold (\<lambda>(ident, node) states. obj_set ident (state_json node) states) ns acc"
    for ns acc
    by (induction ns arbitrary: acc) (auto simp: state_json_normal)
  then show ?thesis by (simp add: graph_json_def normal_graph_def)
qed

lemma get_prop_state:
  "get_prop (state_json node) ''type'' = Inr (node_type node)"
  "get_prop (state_json node) ''meta'' = Inr (meta node)"
  "get_prop (state_json node) ''on''
     = Inr (if transitions node = [] then JUndefined
            else JObj (fold (\<lambda>(ev, t) on. obj_set ev (transition_json t) on)
                         (transitions node) []))"
  by (simp_all add: state_json_def)

lemma normalizeTransition_to_json:
  assumes "truthy (actions t)"
  shows "normalizeTransition (transition_json t) ident ev
         = Inr \<lparr> source = ident, target = JStr (target t), event = ev,
                 cond = cond (normal_transition ident ev t),
                 actions = actions (normal_transition ident ev t) \<rparr>"
  using assms
  by (simp add: normalizeTransition_def transition_json_def normal_transition_def js_or_def)

lemma create_nodes_serialized:
  assumes "distinct (map fst ns)" "fst ` set ns \<inter> fst ` set pre = {}"
    and "\<forall>(ident, node) \<in> set ns. truthy (node_type node) \<and> truthy (meta node)"
  shows "create_nodes (map (\<lambda>(ident, node). (ident, state_json node)) ns)
           \<lparr> graph_id = gi, initial = ini, nodes = pre \<rparr>
         = Inr \<lparr> graph_id = gi, initial = ini,
                 nodes = pre @ map (\<lambda>(ident, node). (ident, fresh_node ident node)) ns \<rparr>"
  using assms
proof (induction ns arbitrary: pre)
  case Nil
  show ?case by simp
next
  case (Cons a ns)
  obtain ident node where a: "a = (ident, node)" by (cases a)
  from Cons.prems a have fresh: "ident \<notin> fst ` set pre"
    and t: "truthy (node_type node)" "truthy (meta node)" by auto
  let ?pre = "pre @ [(ident, fresh_node ident node)]"
  have "create_nodes (map (\<lambda>(ident, node). (ident, state_json node)) ns)
           \<lparr> graph_id = gi, initial = ini, nodes = ?pre \<rparr>
         = Inr \<lparr> graph_id = gi, initial = ini,
                 nodes = ?pre @ map (\<lambda>(ident, node). (ident, fresh_node ident node)) ns \<rparr>"
    using Cons.prems a by (intro Cons.IH) auto
  then show ?case
    using t by (simp add: a get_prop_state js_or_def update_fresh[OF fresh] fresh_node_def)
qed

lemma build_edges_serialized:
  assumes "ident \<notin> fst ` set pre"
    and "\<forall>(ev, t) \<in> set ts. target t \<in> fst ` set (pre @ (ident, n0) # post) \<and> truthy (actions t)"
  shows "build_edges ident (map (\<lambda>(ev, t). (ev, transition_json t)) ts)
           \<lparr> graph_id = gi, initial = ini, nodes = pre @ (ident, n0) # post \<rparr>
         = Inr \<lparr> graph_id = gi, initial = ini,
                 nodes = pre @
                   (ident, n0 \<lparr> transitions :=
                                  fold (\<lambda>(ev, t) acc. AList.update ev (normal_transition ident ev t) acc)
                                    ts (transitions n0),
                                outgoing := outgoing n0
                                  @ map (\<lambda>(ev, t). normal_transition ident ev t) ts \<rparr>) # post \<rparr>"
  using assms(2)
proof (induction ts arbitrary: n0)
  case Nil
  show ?case by simp
next
  case (Cons a ts)
  obtain ev t where a: "a = (ev, t)" by (cases a)
  from Cons.prems a have tg: "target t \<in> fst ` set (pre @ (ident, n0) # post)"
    and act: "truthy (actions t)" by auto
  let ?t = "normal_transition ident ev t"
  let ?n1 = "n0 \<lparr> transitions := AList.update ev ?t (transitions n0),
                   outgoing := outgoing n0 @ [?t] \<rparr>"
  have nt: "\<lparr> source = ident, target = target t, event = ev, cond = cond ?t, actions = actions ?t \<rparr> = ?t"
    by (simp add: normal_transition_def)
  have keys: "fst ` set (pre @ (ident, ?n1) # post) = fst ` set (pre @ (ident, n0) # post)"
    by simp
  have "build_edges ident (map (\<lambda>(ev, t). (ev, transition_json t)) ts)
           \<lparr> graph_id = gi, initial = ini, nodes = pre @ (ident, ?n1) # post \<rparr>
         = Inr \<lparr> graph_id = gi, initial = ini,
                 nodes = pre @
                   (ident, ?n1 \<lparr> transitions :=
                                  fold (\<lambda>(ev, t) acc. AList.update ev (normal_transition ident ev t) acc)
                                    ts (transitions ?n1),
                                outgoing := outgoing ?n1
                                  @ map (\<lambda>(ev, t). normal_transition ident ev t) ts \<rparr>) # post \<rparr>"
    using Cons.prems a unfolding keys[symmetric] by (intro Cons.IH) auto
  moreover have "nodes_has \<lparr> graph_id = gi, initial = ini, nodes = pre @ (ident, n0) # post \<rparr> (target t)"
    using tg by (auto simp: nodes_has_def)
  moreover have "nodes_get \<lparr> graph_id = gi, initial = ini, nodes = pre @ (ident, n0) # post \<rparr> ident
                 = Some n0"
    unfolding nodes_get_def using map_of_middle[OF assms(1)] by (simp del: map_of_append)
  ultimately show ?case
    by (simp add: a normalizeTransition_to_json[OF act] nt update_middle[OF assms(1)] Let_def)
qed

lemma normal_node_fresh: "transitions node = [] \<Longrightarrow> normal_node ident node = fresh_node ident node"
  by (simp add: normal_node_def fresh_node_def)

lemma link_states_serialized:
  assumes "distinct (map fst (pre @ ns))"
    and "\<forall>(ident, node) \<in> set ns.
           distinct (map fst (transitions node))
         \<and> ''__proto__'' \<notin> fst ` set (transitions node)
         \<and> (\<forall>(ev, t) \<in> set (transitions node).
                target t \<in> fst ` set (pre @ ns) \<and> truthy (actions t))"
  shows "link_states (map (\<lambda>(ident, node). (ident, state_json node)) ns)
           \<lparr> graph_id = gi, initial = ini,
             nodes = pre @ map (\<lambda>(ident, node). (ident, fresh_node ident node)) ns \<rparr>
         = Inr \<lparr> graph_id = gi, initial = ini,
                 nodes = pre @ map (\<lambda>(ident, node). (ident, normal_node ident node)) ns \<rparr>"
  using assms
proof (induction ns arbitrary: pre)
  case Nil
  show ?case by simp
next
  case (Cons a ns)
  obtain ident node where a: "a = (ident, node)" by (cases a)
  let ?fresh = "map (\<lambda>(ident, node). (ident, fresh_node ident node)) ns"
  let ?pre = "pre @ [(ident, normal_node ident node)]"
  from Cons.prems(1) a have fresh: "ident \<notin> fst ` set pre" by auto
  from Cons.prems(2) a have d: "distinct (map fst (transitions node))"
    and pk: "''__proto__'' \<notin> fst ` set (transitions node)"
    and tg: "\<forall>(ev, t) \<in> set (transitions node).
                target t \<in> fst ` set (pre @ (ident, node) # ns) \<and> truthy (actions t)"
    by auto
  have keys: "fst ` set (?pre @ ns) = fst ` set (pre @ a # ns)"
    by (auto simp: a)
  have rest: "link_states (map (\<lambda>(ident, node). (ident, state_json node)) ns)
           \<lparr> graph_id = gi, initial = ini, nodes = ?pre @ ?fresh \<rparr>
         = Inr \<lparr> graph_id = gi, initial = ini,
                 nodes = ?pre @ map (\<lambda>(ident, node). (ident, normal_node ident node)) ns \<rparr>"
  proof (rule Cons.IH)
    show "distinct (map fst (?pre @ ns))" using Cons.prems(1) a by auto
    show "\<forall>(ident, node) \<in> set ns.
           distinct (map fst (transitions node))
         \<and> ''__proto__'' \<notin> fst ` set (transitions node)
         \<and> (\<forall>(ev, t) \<in> set (transitions node).
                target t \<in> fst ` set (?pre @ ns) \<and> truthy (actions t))"
      unfolding keys using Cons.prems(2) by auto
  qed
  show ?case
  proof (cases "transitions node = []")
    case True
    with rest show ?thesis
      by (simp add: a get_prop_state normal_node_fresh)
  next
    case False
    have entries: "fold (\<lambda>(ev, t) on. obj_set ev (transition_json t) on) (transitions node) []
                   = map (\<lambda>(ev, t). (ev, transition_json t)) (transitions node)"
      using fold_obj_set_distinct[OF pk d, of "\<lambda>ev t. transition_json t"] by simp
    have normal: "fold (\<lambda>(ev, t) acc. AList.update ev (normal_transition ident ev t) acc)
                    (transitions node) []
                  = map (\<lambda>(ev, t). (ev, normal_transition ident ev t)) (transitions node)"
      using fold_update_distinct[OF d, of "[]" "\<lambda>ev t. normal_transition ident ev t"] by simp
    have tg': "\<forall>(ev, t) \<in> set (transitions node).
                target t \<in> fst ` set (pre @ (ident, fresh_node ident node) # ?fresh)
              \<and> truthy (actions t)"
    proof -
      have "fst ` set (pre @ (ident, fresh_node ident node) # ?fresh)
            = fst ` set (pre @ (ident, node) # ns)"
        by (auto simp: image_iff) force+
      with tg show ?thesis by simp
    qed
    have "build_edges ident (map (\<lambda>(ev, t). (ev, transition_json t)) (transitions node))
           \<lparr> graph_id = gi, initial = ini,
             nodes = pre @ (ident, fresh_node ident node) # ?fresh \<rparr>
         = Inr \<lparr> graph_id = gi, initial = ini,
                 nodes = pre @ (ident, normal_node ident node) # ?fresh \<rparr>"
      using build_edges_serialized[OF fresh tg', of gi ini]
      by (simp add: normal fresh_node_def normal_node_def)
    with rest False show ?thesis
      by (simp add: a get_prop_state entries)
  qed
qed

lemma graph_json_distinct:
  "''__proto__'' \<notin> fst ` set (nodes g) \<Longrightarrow> distinct (map fst (nodes g)) \<Longrightarrow>
     graph_json g
       = JObj [(''initial'', JStr (initial g)),
               (''states'', JObj (map (\<lambda>(ident, node). (ident, state_json node)) (nodes g)))]"
  using fold_obj_set_distinct[of "nodes g" "\<lambda>ident node. state_json node"]
  by (simp add: graph_json_def)

lemma parse_serialized:
  assumes inv: "nodes_invariant g" and ini: "nodes_has g (initial g)" and plain: "plain_keys g"
  shows "parseMachine (graph_json g) = Inr (normal_graph g)"
proof -
  from plain have pn: "''__proto__'' \<notin> fst ` set (nodes g)"
    and pe: "\<forall>(ident, node) \<in> set (nodes g). ''__proto__'' \<notin> fst ` set (transitions node)"
    unfolding plain_keys_def list_all_iff by fastforce+
  let ?S = "map (\<lambda>(ident, node). (ident, state_json node)) (nodes g)"
  let ?g1 = "\<lparr> graph_id = JStr ''crypto-machine'', initial = initial g,
                nodes = map (\<lambda>(ident, node). (ident, fresh_node ident node)) (nodes g) \<rparr>"
  from inv have d: "distinct (map fst (nodes g))" by (simp add: nodes_invariant_def)
  have c: "create_nodes ?S \<lparr> graph_id = JStr ''crypto-machine'', initial = initial g, nodes = [] \<rparr>
           = Inr ?g1"
    using create_nodes_serialized[OF d, of "[]" "JStr ''crypto-machine''" "initial g"] inv
    unfolding nodes_invariant_def by fastforce
  have h: "nodes_has ?g1 (initial ?g1)"
    using ini by (force simp: nodes_has_def image_iff)
  have l: "link_states ?S ?g1 = Inr (normal_graph g)"
    unfolding normal_graph_def
    using link_states_serialized[of "[]" "nodes g" "JStr ''crypto-machine''" "initial g"] inv pe
    unfolding nodes_invariant_def nodes_has_def by fastforce
  show ?thesis
    unfolding graph_json_distinct[OF pn d]
    using c h l by (simp add: parseMachine_def js_or_def)
qed

lemma actions_typed_normal: "actions_typed g \<Longrightarrow> actions_typed (normal_graph g)"
  by (fastforce simp: actions_typed_def normal_graph_def normal_node_def normal_transition_def
      list_all_iff split: if_splits)

text \<open>
  Where no state and no event is named \<open>__proto__\<close>, \<open>graphToJSON\<close> is a fixpoint of
  parsing and serializing again: for every graph \<open>g\<close> that \<open>parseMachine\<close> returns and
  that holds no object as \<open>actions\<close>, \<open>graphToJSON(g)\<close> returns, \<open>parseMachine\<close> accepts
  what it returns, and \<open>graphToJSON\<close> of the graph it builds returns the same again.
\<close>

lemma graphToJSON_fixpoint_plain_keys:
  assumes "parseMachine input = Inr g" and "actions_typed g" and "plain_keys g"
  shows "\<exists>d g'. graphToJSON is_positive g = Inr d \<and> parseMachine d = Inr g'
           \<and> graphToJSON is_positive g' = Inr d"
  using parse_serialized[OF parseMachine_invariant[OF assms(1)] assms(3)] graph_json_normal[of g]
    graphToJSON_typed[OF assms(2)] graphToJSON_typed[OF actions_typed_normal[OF assms(2)]]
  by simp

lemma graphToJSON_fixpoint_examples:
  "plain_keys graph_actions \<and> actions_typed graph_actions
   \<and> parseMachine (graph_json graph_actions) = Inr graph_actions
   \<and> plain_keys graph_cycle \<and> actions_typed graph_cycle
   \<and> parseMachine (graph_json graph_cycle) = Inr graph_cycle"
  by (simp add: parse_unfold graph_json_def state_json_def transition_json_def obj_set_def
      plain_keys_def actions_typed_def graph_actions_def graph_cycle_def)

text \<open>
  Claim C8 says that \<open>graphToJSON(parseMachine(graphToJSON(g)))\<close> equals \<open>graphToJSON(g)\<close>
  for every graph \<open>g\<close> that \<open>parseMachine\<close> returns. The code does not do that for an
  event or a state named \<open>__proto__\<close>, which \<open>parseMachine\<close> keeps (in a \<open>Map\<close>) and
  \<open>graphToJSON\<close> loses (in a plain object). For
  \<open>{"initial": "A", "states": {"A": {"on": {"__proto__": "A"}}}}\<close> the first
  serialization has \<open>on: {}\<close> and the second has no \<open>on\<close>; for
  \<open>{"initial": "__proto__", "states": {"__proto__": {}}}\<close> the first serialization has no
  state, and \<open>parseMachine\<close> rejects it.
\<close>

theorem graphToJSON_proto_key:
  "parseMachine machine_proto_event = Inr graph_proto_event
   \<and> actions_typed graph_proto_event
   \<and> graphToJSON is_positive graph_proto_event
       = Inr (JObj [(''initial'', JStr ''A''),
               (''states'', JObj [(''A'', JObj [(''type'', JStr ''default''), (''meta'', JObj []),
                                                (''on'', JObj [])])])])
   \<and> (case graphToJSON is_positive graph_proto_event of Inl e \<Rightarrow> Inl e | Inr d \<Rightarrow> parseMachine d)
       = Inr graph_no_event
   \<and> graphToJSON is_positive graph_no_event
       = Inr (JObj [(''initial'', JStr ''A''),
               (''states'', JObj [(''A'', JObj [(''type'', JStr ''default''), (''meta'', JObj [])])])])
   \<and> graphToJSON is_positive graph_no_event \<noteq> graphToJSON is_positive graph_proto_event
   \<and> parseMachine machine_proto_state = Inr graph_proto_state
   \<and> graphToJSON is_positive graph_proto_state
       = Inr (JObj [(''initial'', JStr ''__proto__''), (''states'', JObj [])])
   \<and> (case graphToJSON is_positive graph_proto_state of Inl e \<Rightarrow> Inl e | Inr d \<Rightarrow> parseMachine d)
       = Inl (Parser \<lparr> code = INVALID_REFERENCE, details = Initial_not_defined ''__proto__'',
                       path = Some [''initial''] \<rparr>)"
proof -
  have e: "graphToJSON is_positive graph_proto_event
       = Inr (JObj [(''initial'', JStr ''A''),
               (''states'', JObj [(''A'', JObj [(''type'', JStr ''default''), (''meta'', JObj []),
                                                (''on'', JObj [])])])])"
    by (simp add: graphToJSON_def state_to_json_def transition_to_json_def obj_set_def
        graph_proto_event_def)
  have n: "graphToJSON is_positive graph_no_event
       = Inr (JObj [(''initial'', JStr ''A''),
               (''states'', JObj [(''A'', JObj [(''type'', JStr ''default''), (''meta'', JObj [])])])])"
    by (simp add: graphToJSON_def state_to_json_def obj_set_def graph_no_event_def)
  have s: "graphToJSON is_positive graph_proto_state
       = Inr (JObj [(''initial'', JStr ''__proto__''), (''states'', JObj [])])"
    by (simp add: graphToJSON_def state_to_json_def obj_set_def graph_proto_state_def)
  have pe: "(case graphToJSON is_positive graph_proto_event of Inl e \<Rightarrow> Inl e
             | Inr d \<Rightarrow> parseMachine d) = Inr graph_no_event"
    unfolding e by (simp add: parse_unfold graph_no_event_def)
  have ps: "(case graphToJSON is_positive graph_proto_state of Inl e \<Rightarrow> Inl e
             | Inr d \<Rightarrow> parseMachine d)
       = Inl (Parser \<lparr> code = INVALID_REFERENCE, details = Initial_not_defined ''__proto__'',
                       path = Some [''initial''] \<rparr>)"
    unfolding s by (simp add: parse_unfold)
  have t: "actions_typed graph_proto_event"
    by (simp add: actions_typed_def graph_proto_event_def)
  show ?thesis
    using parse_machine_proto_event parse_machine_proto_state t pe ps
    unfolding e n s by simp
qed

theorem graphToJSON_proto_key_witness:
  "\<forall>is_positive. \<exists>g'.
     (case graphToJSON is_positive graph_proto_event of Inl e \<Rightarrow> Inl e | Inr d \<Rightarrow> parseMachine d)
       = Inr g'
     \<and> graphToJSON is_positive g' \<noteq> graphToJSON is_positive graph_proto_event"
  using graphToJSON_proto_key by blast

end
